theory Spec2Isabelle
  imports Main "HOL-Library.Multiset" "HOL-Library.List_Lexorder" "HOL-Library.Char_ord"
begin

section \<open>Data model (shared/schema.ts)\<close>

text \<open>
  The enumerations of \<^verbatim>\<open>shared/schema.ts\<close>: \<^verbatim>\<open>UserRole\<close>, \<^verbatim>\<open>MeetingType\<close> and
  \<^verbatim>\<open>BookingStatus\<close>, with the constructors spelled as the wire values.
\<close>

datatype UserRole = user | group_director | secretary | it_team

datatype MeetingType = offline | online | miscellaneous

datatype BookingStatus =
    submitted | gd_approved | gd_rejected | secretary_approved | secretary_rejected
  | it_setup_complete | completed | cancelled

text \<open>
  A JavaScript \<^verbatim>\<open>Date\<close> holding an event date is kept as its decomposition in the
  server's local time: the calendar day (a day number) and the time of day in
  milliseconds. \<^verbatim>\<open>toDateString()\<close> prints the calendar day only ("Fri Mar 01 2024"),
  and two dates print the same string exactly when their calendar days agree, so the
  model returns the day number in place of the string.

  The values of \<^verbatim>\<open>new Date()\<close> that are stored as creation and approval stamps are
  kept as \<^typ>\<open>int\<close>: the number \<^verbatim>\<open>getTime()\<close> returns, the only thing the code
  reads from them.

  Of a user and a venue the fields that the booking handlers read are kept.
\<close>

record Date =
  calendarDay :: int
  timeOfDay :: nat

definition toDateString :: "Date \<Rightarrow> int" where
  "toDateString d = calendarDay d"

record User =
  uId :: string
  username :: string
  email :: string
  role :: UserRole

record Venue =
  vId :: string
  vName :: string
  capacity :: int

text \<open>
  \<^verbatim>\<open>InsertBooking\<close> is what \<^verbatim>\<open>insertBookingSchema.parse\<close> returns. A column that is
  nullable in the table is an optional key of the parsed object: \<^term>\<open>None\<close> is a key
  that is absent, \<^term>\<open>Some None\<close> is \<^verbatim>\<open>null\<close>, \<^term>\<open>Some (Some v)\<close> a value.
  \<^verbatim>\<open>Booking\<close> has the same keys and the workflow fields on top.
\<close>

record InsertBooking =
  userId :: string
  venueId :: string
  eventTitle :: string
  eventDescription :: "string option option"
  meetingType :: MeetingType
  eventDate :: Date
  startTime :: string
  endTime :: string
  expectedAttendees :: int
  department :: string
  requestedResources :: "string list option option"
  specialRequirements :: "string option option"

record Booking = InsertBooking +
  bId :: string
  status :: BookingStatus
  gdApprovalDate :: "int option"
  gdRemarks :: "string option"
  secretaryApprovalDate :: "int option"
  secretaryRemarks :: "string option"
  itSetupDate :: "int option"
  itRemarks :: "string option"
  createdAt :: int
  updatedAt :: int

record InsertBookingHistory =
  bookingId :: string
  hStatus :: BookingStatus
  remarks :: "string option"
  changedBy :: string

record BookingHistory = InsertBookingHistory +
  hId :: string
  hCreatedAt :: int

section \<open>The store (server/persistent-storage.ts)\<close>

text \<open>
  The private arrays of \<^verbatim>\<open>class PersistentStorage\<close>, which every route works on
  (\<^verbatim>\<open>routes.ts\<close> imports \<^verbatim>\<open>persistentStorage as storage\<close>). The resources and feedback
  arrays are left out: no booking operation reads or writes them. \<^verbatim>\<open>saveAllData\<close>
  copies the arrays to disk and swallows its own errors, so it does not change them.

  The two things the class reads from outside are part of the state as well:
  \<^verbatim>\<open>Math.random\<close> behind \<^verbatim>\<open>generateId()\<close> and the system clock behind
  \<^verbatim>\<open>new Date()\<close>. Each is the sequence of the values its successive calls return,
  with the number of calls made so far.
\<close>

record PersistentStorage =
  users :: "User list"
  venues :: "Venue list"
  bookings :: "Booking list"
  bookingHistory :: "BookingHistory list"
  randomIds :: "nat \<Rightarrow> string"
  idCalls :: nat
  clock :: "nat \<Rightarrow> int"
  clockCalls :: nat

definition generateId :: "PersistentStorage \<Rightarrow> string \<times> PersistentStorage" where
  "generateId s = (randomIds s (idCalls s), s\<lparr>idCalls := Suc (idCalls s)\<rparr>)"

definition newDate :: "PersistentStorage \<Rightarrow> int \<times> PersistentStorage" where
  "newDate s = (clock s (clockCalls s), s\<lparr>clockCalls := Suc (clockCalls s)\<rparr>)"

definition getUser :: "PersistentStorage \<Rightarrow> string \<Rightarrow> User option" where
  "getUser s i = find (\<lambda>u. uId u = i) (users s)"

definition getVenue :: "PersistentStorage \<Rightarrow> string \<Rightarrow> Venue option" where
  "getVenue s i = find (\<lambda>v. vId v = i) (venues s)"

text \<open>
  \<^verbatim>\<open>checkVenueAvailability\<close>: the filter callback, branch by branch. The guard
  \<^verbatim>\<open>excludeBookingId && booking.id === excludeBookingId\<close> is false for an absent and
  for an empty \<^verbatim>\<open>excludeBookingId\<close>. \<^verbatim>\<open><=\<close> and \<^verbatim>\<open>>=\<close> on the time strings are the
  lexicographic order of strings, character codes compared as numbers.
\<close>

definition checkVenueAvailability ::
  "PersistentStorage \<Rightarrow> string \<Rightarrow> Date \<Rightarrow> string \<Rightarrow> string \<Rightarrow> string option \<Rightarrow> bool" where
  "checkVenueAvailability s venueId' date startTime' endTime' excludeBookingId =
     (let conflictingBookings = filter (\<lambda>booking.
        if (case excludeBookingId of None \<Rightarrow> False
            | Some e \<Rightarrow> e \<noteq> [] \<and> bId booking = e) then False
        else if venueId booking \<noteq> venueId' then False
        else if status booking = cancelled \<or> status booking = gd_rejected
                \<or> status booking = secretary_rejected then False
        else if toDateString (eventDate booking) \<noteq> toDateString date then False
        else \<not> (endTime' \<le> startTime booking \<or> startTime' \<ge> endTime booking))
        (bookings s)
      in length conflictingBookings = 0)"

text \<open>\<^verbatim>\<open>addBookingHistory\<close>: a fresh id, the current time, and a push.\<close>

definition addBookingHistory ::
  "PersistentStorage \<Rightarrow> InsertBookingHistory \<Rightarrow> BookingHistory \<times> PersistentStorage" where
  "addBookingHistory s historyData =
     (case generateId s of (i, s1) \<Rightarrow>
      case newDate s1 of (now, s2) \<Rightarrow>
        let history = \<lparr>bookingId = bookingId historyData, hStatus = hStatus historyData,
                       remarks = remarks historyData, changedBy = changedBy historyData,
                       hId = i, hCreatedAt = now\<rparr>
        in (history, s2\<lparr>bookingHistory := bookingHistory s2 @ [history]\<rparr>))"

text \<open>
  \<^verbatim>\<open>getBookingHistory\<close>: filter by booking id, then \<^verbatim>\<open>sort\<close> with the comparator
  \<^verbatim>\<open>a.createdAt - b.createdAt\<close>. \<^verbatim>\<open>Array.prototype.sort\<close> is stable, as is
  \<^const>\<open>sort_key\<close>.
\<close>

definition getBookingHistory :: "PersistentStorage \<Rightarrow> string \<Rightarrow> BookingHistory list" where
  "getBookingHistory s bookingId' =
     sort_key hCreatedAt (filter (\<lambda>h. bookingId h = bookingId') (bookingHistory s))"

text \<open>\<^verbatim>\<open>createBooking\<close>: the new booking is pushed, then its first history row.\<close>

definition createBooking ::
  "PersistentStorage \<Rightarrow> InsertBooking \<Rightarrow> Booking \<times> PersistentStorage" where
  "createBooking s bookingData =
     (case generateId s of (i, s1) \<Rightarrow>
      case newDate s1 of (c, s2) \<Rightarrow>
      case newDate s2 of (u, s3) \<Rightarrow>
        let booking = \<lparr>userId = userId bookingData, venueId = venueId bookingData,
                       eventTitle = eventTitle bookingData,
                       eventDescription = eventDescription bookingData,
                       meetingType = meetingType bookingData,
                       eventDate = eventDate bookingData,
                       startTime = startTime bookingData, endTime = endTime bookingData,
                       expectedAttendees = expectedAttendees bookingData,
                       department = department bookingData,
                       requestedResources = requestedResources bookingData,
                       specialRequirements = specialRequirements bookingData,
                       bId = i, status = submitted,
                       gdApprovalDate = None, gdRemarks = None,
                       secretaryApprovalDate = None, secretaryRemarks = None,
                       itSetupDate = None, itRemarks = None,
                       createdAt = c, updatedAt = u\<rparr>;
            s4 = s3\<lparr>bookings := bookings s3 @ [booking]\<rparr>;
            s5 = snd (addBookingHistory s4
                   \<lparr>bookingId = bId booking, hStatus = submitted,
                    remarks = Some ''Booking request submitted'',
                    changedBy = userId booking\<rparr>)
        in (booking, s5))"

text \<open>
  \<^verbatim>\<open>getBooking\<close>: the booking joined with its user and venue; \<^verbatim>\<open>undefined\<close> when the
  booking, its user or its venue is not found.
\<close>

definition getBooking ::
  "PersistentStorage \<Rightarrow> string \<Rightarrow> (Booking \<times> User \<times> Venue) option" where
  "getBooking s i =
     (case find (\<lambda>b. bId b = i) (bookings s) of
        None \<Rightarrow> None
      | Some booking \<Rightarrow>
         (case getUser s (userId booking) of
            None \<Rightarrow> None
          | Some u \<Rightarrow>
             (case getVenue s (venueId booking) of
                None \<Rightarrow> None
              | Some v \<Rightarrow> Some (booking, u, v))))"

text \<open>\<^verbatim>\<open>Array.prototype.findIndex\<close>, with \<^term>\<open>None\<close> for \<^verbatim>\<open>-1\<close>.\<close>

fun findIndex :: "('a \<Rightarrow> bool) \<Rightarrow> 'a list \<Rightarrow> nat option" where
  "findIndex P [] = None"
| "findIndex P (x # xs) = (if P x then Some 0 else map_option Suc (findIndex P xs))"

text \<open>\<^verbatim>\<open>throw new Error('Booking not found')\<close>, the one error the store raises.\<close>

datatype Error = BookingNotFound

text \<open>
  \<^verbatim>\<open>updateBooking\<close>: the spread \<^verbatim>\<open>{...old, ...bookingData, updatedAt}\<close>. A key of
  \<^verbatim>\<open>bookingData\<close> that is absent leaves the old value. The only caller passes a whole
  parsed \<^verbatim>\<open>InsertBooking\<close>.
\<close>

definition updateBooking ::
  "PersistentStorage \<Rightarrow> string \<Rightarrow> InsertBooking \<Rightarrow> Error + Booking \<times> PersistentStorage" where
  "updateBooking s i bookingData =
     (case findIndex (\<lambda>b. bId b = i) (bookings s) of
        None \<Rightarrow> Inl BookingNotFound
      | Some index \<Rightarrow>
         (case newDate s of (now, s1) \<Rightarrow>
            let old = bookings s1 ! index;
                new = old\<lparr>userId := userId bookingData, venueId := venueId bookingData,
                          eventTitle := eventTitle bookingData,
                          eventDescription :=
                            (case eventDescription bookingData of
                               None \<Rightarrow> eventDescription old | Some x \<Rightarrow> Some x),
                          meetingType := meetingType bookingData,
                          eventDate := eventDate bookingData,
                          startTime := startTime bookingData,
                          endTime := endTime bookingData,
                          expectedAttendees := expectedAttendees bookingData,
                          department := department bookingData,
                          requestedResources :=
                            (case requestedResources bookingData of
                               None \<Rightarrow> requestedResources old | Some x \<Rightarrow> Some x),
                          specialRequirements :=
                            (case specialRequirements bookingData of
                               None \<Rightarrow> specialRequirements old | Some x \<Rightarrow> Some x),
                          updatedAt := now\<rparr>
            in Inr (new, s1\<lparr>bookings := (bookings s1)[index := new]\<rparr>)))"

text \<open>The template string \<^verbatim>\<open>${status}\<close> prints the wire value.\<close>

fun statusName :: "BookingStatus \<Rightarrow> string" where
  "statusName submitted = ''submitted''"
| "statusName gd_approved = ''gd_approved''"
| "statusName gd_rejected = ''gd_rejected''"
| "statusName secretary_approved = ''secretary_approved''"
| "statusName secretary_rejected = ''secretary_rejected''"
| "statusName it_setup_complete = ''it_setup_complete''"
| "statusName completed = ''completed''"
| "statusName cancelled = ''cancelled''"

text \<open>
  \<^verbatim>\<open>updateBookingStatus\<close>: one reading of the clock (\<^verbatim>\<open>now\<close>) stamps \<^verbatim>\<open>updatedAt\<close> and
  the stage date; the \<^verbatim>\<open>switch\<close> adds the stage fields; then the history row, whose
  remarks are \<^verbatim>\<open>remarks || `Status updated to ${status}`\<close>: the default stands in for
  remarks that are absent or empty.
\<close>

definition stageUpdates :: "BookingStatus \<Rightarrow> int \<Rightarrow> string option \<Rightarrow> Booking \<Rightarrow> Booking" where
  "stageUpdates status' now remarks' b =
     (case status' of
        gd_approved \<Rightarrow> b\<lparr>gdApprovalDate := Some now, gdRemarks := remarks'\<rparr>
      | gd_rejected \<Rightarrow> b\<lparr>gdApprovalDate := Some now, gdRemarks := remarks'\<rparr>
      | secretary_approved \<Rightarrow>
          b\<lparr>secretaryApprovalDate := Some now, secretaryRemarks := remarks'\<rparr>
      | secretary_rejected \<Rightarrow>
          b\<lparr>secretaryApprovalDate := Some now, secretaryRemarks := remarks'\<rparr>
      | it_setup_complete \<Rightarrow> b\<lparr>itSetupDate := Some now, itRemarks := remarks'\<rparr>
      | _ \<Rightarrow> b)"

definition remarksOrDefault :: "string option \<Rightarrow> BookingStatus \<Rightarrow> string" where
  "remarksOrDefault remarks' status' =
     (case remarks' of
        None \<Rightarrow> ''Status updated to '' @ statusName status'
      | Some r \<Rightarrow> if r = [] then ''Status updated to '' @ statusName status' else r)"

definition updateBookingStatus ::
  "PersistentStorage \<Rightarrow> string \<Rightarrow> BookingStatus \<Rightarrow> string \<Rightarrow> string option
     \<Rightarrow> Error + Booking \<times> PersistentStorage" where
  "updateBookingStatus s i status' userId' remarks' =
     (case findIndex (\<lambda>b. bId b = i) (bookings s) of
        None \<Rightarrow> Inl BookingNotFound
      | Some index \<Rightarrow>
         (case newDate s of (now, s1) \<Rightarrow>
            let old = bookings s1 ! index;
                new = stageUpdates status' now remarks'
                        (old\<lparr>status := status', updatedAt := now\<rparr>);
                s2 = s1\<lparr>bookings := (bookings s1)[index := new]\<rparr>;
                s3 = snd (addBookingHistory s2
                       \<lparr>bookingId = i, hStatus = status',
                        remarks = Some (remarksOrDefault remarks' status'),
                        changedBy = userId'\<rparr>)
            in Inr (new, s3)))"

section \<open>The request handlers (server/routes.ts)\<close>

text \<open>
  A handler answers with a status code (\<^verbatim>\<open>res.json\<close> alone is 200) and a body. The
  \<^verbatim>\<open>authenticate\<close> middleware has put the stored user in \<^verbatim>\<open>req.user\<close>; the handlers
  take that user as \<open>actor\<close>.
\<close>

datatype Body = Message string | BookingJson Booking

type_synonym Response = "nat \<times> Body"

text \<open>
  \<^verbatim>\<open>broadcastStatusUpdate\<close> writes to the open web sockets, which are not part of the
  store; what it does to the state is one more reading of the clock for the
  message's time stamp.
\<close>

definition broadcastStatusUpdate ::
  "PersistentStorage \<Rightarrow> string \<Rightarrow> BookingStatus \<Rightarrow> PersistentStorage" where
  "broadcastStatusUpdate s bookingId' status' = snd (newDate s)"

text \<open>
  \<^verbatim>\<open>insertBookingSchema.parse({...req.body, userId: req.user!.id, eventDate: ...})\<close>:
  the schema is built by a library from the table, so the request body comes
  parsed: \<^term>\<open>None\<close> is a body that \<^verbatim>\<open>parse\<close> rejects by throwing, \<^term>\<open>Some raw\<close> one
  that it accepts, and the user id is the actor's whatever the body said.
\<close>

definition parseBooking :: "InsertBooking option \<Rightarrow> User \<Rightarrow> InsertBooking option" where
  "parseBooking body actor = map_option (\<lambda>raw. raw\<lparr>userId := uId actor\<rparr>) body"

text \<open>\<^verbatim>\<open>POST /api/bookings\<close>\<close>

definition postBooking ::
  "PersistentStorage \<Rightarrow> User \<Rightarrow> InsertBooking option \<Rightarrow> Response \<times> PersistentStorage" where
  "postBooking s actor body =
     (case parseBooking body actor of
        None \<Rightarrow> ((400, Message ''Failed to create booking''), s)
      | Some bookingData \<Rightarrow>
          if \<not> checkVenueAvailability s (venueId bookingData) (eventDate bookingData)
                 (startTime bookingData) (endTime bookingData) None
          then ((400, Message ''Venue not available for the selected time slot''), s)
          else
            (case createBooking s bookingData of (booking, s1) \<Rightarrow>
               let s2 = snd (addBookingHistory s1
                          \<lparr>bookingId = bId booking, hStatus = submitted,
                           remarks = Some ''Booking request submitted'',
                           changedBy = uId actor\<rparr>);
                   s3 = broadcastStatusUpdate s2 (bId booking) submitted
               in ((200, BookingJson booking), s3)))"

text \<open>
  \<^verbatim>\<open>PATCH /api/bookings/:id\<close>. The \<^verbatim>\<open>catch\<close> answers 400 for anything thrown; the
  arrays keep what was written before the throw.
\<close>

definition patchBooking ::
  "PersistentStorage \<Rightarrow> User \<Rightarrow> string \<Rightarrow> InsertBooking option
     \<Rightarrow> Response \<times> PersistentStorage" where
  "patchBooking s actor bookingId' body =
     (case getBooking s bookingId' of
        None \<Rightarrow> ((404, Message ''Booking not found''), s)
      | Some (existingBooking, _, _) \<Rightarrow>
          if userId existingBooking \<noteq> uId actor
          then ((403, Message ''Not authorized to edit this booking''), s)
          else if status existingBooking \<notin> set [submitted, gd_rejected, secretary_rejected]
          then ((400, Message ''Booking cannot be edited at this stage''), s)
          else
            (case parseBooking body actor of
               None \<Rightarrow> ((400, Message ''Failed to update booking''), s)
             | Some updateData \<Rightarrow>
                 if \<not> checkVenueAvailability s (venueId updateData) (eventDate updateData)
                        (startTime updateData) (endTime updateData) (Some bookingId')
                 then ((400, Message ''Venue not available for the selected time slot''), s)
                 else
                   (case updateBooking s bookingId' updateData of
                      Inl _ \<Rightarrow> ((400, Message ''Failed to update booking''), s)
                    | Inr (updatedBooking, s1) \<Rightarrow>
                        let s2 = snd (addBookingHistory s1
                                   \<lparr>bookingId = bookingId', hStatus = submitted,
                                    remarks = Some ''Booking updated and resubmitted for approval'',
                                    changedBy = uId actor\<rparr>)
                        in (case updateBookingStatus s2 bookingId' submitted (uId actor)
                                   (Some ''Booking updated'') of
                              Inl _ \<Rightarrow> ((400, Message ''Failed to update booking''), s2)
                            | Inr (_, s3) \<Rightarrow>
                                let s4 = broadcastStatusUpdate s3 bookingId' submitted
                                in ((200, BookingJson updatedBooking), s4)))))"

text \<open>\<^verbatim>\<open>PATCH /api/bookings/:id/cancel\<close>\<close>

definition patchBookingCancel ::
  "PersistentStorage \<Rightarrow> User \<Rightarrow> string \<Rightarrow> Response \<times> PersistentStorage" where
  "patchBookingCancel s actor bookingId' =
     (case getBooking s bookingId' of
        None \<Rightarrow> ((404, Message ''Booking not found''), s)
      | Some (existingBooking, _, _) \<Rightarrow>
          if userId existingBooking \<noteq> uId actor
          then ((403, Message ''Not authorized to cancel this booking''), s)
          else if status existingBooking \<notin>
                    set [submitted, gd_approved, secretary_approved, gd_rejected,
                         secretary_rejected]
          then ((400, Message ''Booking cannot be cancelled at this stage''), s)
          else
            (case updateBookingStatus s bookingId' cancelled (uId actor)
                    (Some ''Booking cancelled by user'') of
               Inl _ \<Rightarrow> ((500, Message ''Failed to cancel booking''), s)
             | Inr (_, s1) \<Rightarrow>
                 let s2 = snd (addBookingHistory s1
                            \<lparr>bookingId = bookingId', hStatus = cancelled,
                             remarks = Some ''Booking cancelled by user'',
                             changedBy = uId actor\<rparr>);
                     s3 = broadcastStatusUpdate s2 bookingId' cancelled
                 in ((200, Message ''Booking cancelled successfully''), s3)))"

text \<open>
  \<^verbatim>\<open>PATCH /api/bookings/:id/status\<close>. \<^verbatim>\<open>allowedRoles\<close> is the object literal of the
  handler: five keys, and \<^verbatim>\<open>undefined\<close> for every other status.
\<close>

fun allowedRoles :: "BookingStatus \<Rightarrow> UserRole list option" where
  "allowedRoles gd_approved = Some [group_director]"
| "allowedRoles gd_rejected = Some [group_director]"
| "allowedRoles secretary_approved = Some [secretary]"
| "allowedRoles secretary_rejected = Some [secretary]"
| "allowedRoles it_setup_complete = Some [it_team]"
| "allowedRoles _ = None"

definition patchBookingStatus ::
  "PersistentStorage \<Rightarrow> User \<Rightarrow> string \<Rightarrow> BookingStatus \<Rightarrow> string option
     \<Rightarrow> Response \<times> PersistentStorage" where
  "patchBookingStatus s actor bookingId' status' remarks' =
     (if (case allowedRoles status' of
            None \<Rightarrow> False
          | Some roles \<Rightarrow> role actor \<notin> set roles)
      then ((403, Message ''Insufficient permissions''), s)
      else
        (case updateBookingStatus s bookingId' status' (uId actor) remarks' of
           Inl _ \<Rightarrow> ((500, Message ''Failed to update booking status''), s)
         | Inr (booking, s1) \<Rightarrow>
             let s2 = broadcastStatusUpdate s1 bookingId' status'
             in ((200, BookingJson booking), s2)))"

section \<open>A small installation to run the handlers on\<close>

text \<open>
  Two ordinary users, one venue, no bookings yet; the generated ids are \<^verbatim>\<open>b\<close>,
  \<^verbatim>\<open>bb\<close>, \<^verbatim>\<open>bbb\<close>, ... and the clock advances by one at every reading.
\<close>

definition alice :: User where
  "alice = \<lparr>uId = ''u1'', username = ''alice'', email = ''alice@drdo.gov.in'', role = user\<rparr>"

definition mallory :: User where
  "mallory = \<lparr>uId = ''u2'', username = ''mallory'', email = ''mallory@drdo.gov.in'',
               role = user\<rparr>"

definition hall :: Venue where
  "hall = \<lparr>vId = ''v1'', vName = ''Main Auditorium'', capacity = 500\<rparr>"

definition emptyStore :: PersistentStorage where
  "emptyStore = \<lparr>users = [alice, mallory], venues = [hall], bookings = [],
                  bookingHistory = [],
                  randomIds = (\<lambda>n. replicate (Suc n) CHR ''b''), idCalls = 0,
                  clock = (\<lambda>n. 1000 + int n), clockCalls = 0\<rparr>"

definition march1 :: Date where
  "march1 = \<lparr>calendarDay = 19783, timeOfDay = 0\<rparr>"

definition march2 :: Date where
  "march2 = \<lparr>calendarDay = 19784, timeOfDay = 0\<rparr>"

definition demoRequest :: InsertBooking where
  "demoRequest = \<lparr>userId = [], venueId = ''v1'', eventTitle = ''Review'',
                   eventDescription = None, meetingType = offline, eventDate = march1,
                   startTime = ''10:00'', endTime = ''12:00'', expectedAttendees = 20,
                   department = ''R&D'', requestedResources = None,
                   specialRequirements = None\<rparr>"

text \<open>The store after alice has booked the hall on 1 March from 10:00 to 12:00.\<close>

definition bookedStore :: PersistentStorage where
  "bookedStore = snd (postBooking emptyStore alice (Some demoRequest))"

text \<open>
  A second booking, mallory's, from 13:00 to 14:00 on the same day, and a request for
  11:00 to 13:00 that runs into alice's.
\<close>

definition afternoonRequest :: InsertBooking where
  "afternoonRequest = demoRequest\<lparr>startTime := ''13:00'', endTime := ''14:00''\<rparr>"

definition clashRequest :: InsertBooking where
  "clashRequest = demoRequest\<lparr>startTime := ''11:00'', endTime := ''13:00''\<rparr>"

definition twoBookings :: PersistentStorage where
  "twoBookings = snd (postBooking bookedStore mallory (Some afternoonRequest))"

text \<open>The director, and the store after the director has approved alice's booking.\<close>

definition director :: User where
  "director = \<lparr>uId = ''u3'', username = ''director'', email = ''director@drdo.gov.in'',
                role = group_director\<rparr>"

definition approvedStore :: PersistentStorage where
  "approvedStore = snd (patchBookingStatus bookedStore director ''b'' gd_approved (Some ''ok''))"

section \<open>Reachable stores\<close>

text \<open>
  The four requests that write bookings or history, and the handler of each.
\<close>

datatype Request =
    PostBooking User "InsertBooking option"
  | PatchBooking User string "InsertBooking option"
  | PatchBookingCancel User string
  | PatchBookingStatus User string BookingStatus "string option"

fun handle :: "PersistentStorage \<Rightarrow> Request \<Rightarrow> Response \<times> PersistentStorage" where
  "handle s (PostBooking actor body) = postBooking s actor body"
| "handle s (PatchBooking actor i body) = patchBooking s actor i body"
| "handle s (PatchBookingCancel actor i) = patchBookingCancel s actor i"
| "handle s (PatchBookingStatus actor i st r) = patchBookingStatus s actor i st r"

text \<open>
  A store is reachable when the handlers have produced it, one request after the
  other and each run to its end before the next, from a store without bookings and
  history, in an environment where \<^verbatim>\<open>generateId()\<close> never returns the same id twice
  and the clock never goes back. The handlers outside this list (registration,
  seeding, venues, resources, feedback) write users, venues, resources and feedback
  and may draw ids and read the clock; they are the third rule.
\<close>

inductive reachable :: "PersistentStorage \<Rightarrow> bool" where
  start: "bookings s = [] \<Longrightarrow> bookingHistory s = [] \<Longrightarrow> inj (randomIds s) \<Longrightarrow>
            mono (clock s) \<Longrightarrow> reachable s"
| request: "reachable s \<Longrightarrow> reachable (snd (handle s req))"
| other: "reachable s \<Longrightarrow> bookings s' = bookings s \<Longrightarrow>
            bookingHistory s' = bookingHistory s \<Longrightarrow> randomIds s' = randomIds s \<Longrightarrow>
            clock s' = clock s \<Longrightarrow> idCalls s \<le> idCalls s' \<Longrightarrow>
            clockCalls s \<le> clockCalls s' \<Longrightarrow> reachable s'"

text \<open>
  For the proofs: the history rows of a booking id in the order of insertion, and
  what holds of a store between and after the steps of a handler.
\<close>

definition ledger :: "PersistentStorage \<Rightarrow> string \<Rightarrow> BookingHistory list" where
  "ledger s i = filter (\<lambda>h. bookingId h = i) (bookingHistory s)"

definition wellFormed :: "PersistentStorage \<Rightarrow> bool" where
  "wellFormed s \<longleftrightarrow>
     inj (randomIds s) \<and> mono (clock s) \<and>
     distinct (map bId (bookings s)) \<and>
     (\<forall>i \<in> bId ` set (bookings s). \<exists>k < idCalls s. i = randomIds s k) \<and>
     sorted (map hCreatedAt (bookingHistory s)) \<and>
     (\<forall>h \<in> set (bookingHistory s). \<exists>k < clockCalls s. hCreatedAt h = clock s k) \<and>
     (\<forall>h \<in> set (bookingHistory s). bookingId h \<in> bId ` set (bookings s)) \<and>
     (\<forall>i \<in> bId ` set (bookings s).
        ledger s i \<noteq> [] \<and> hStatus (hd (ledger s i)) = submitted)"

definition lastRowAgrees :: "PersistentStorage \<Rightarrow> Booking \<Rightarrow> bool" where
  "lastRowAgrees s b \<longleftrightarrow> hStatus (last (ledger s (bId b))) = status b"

definition consistentExcept :: "PersistentStorage \<Rightarrow> string \<Rightarrow> bool" where
  "consistentExcept s i \<longleftrightarrow>
     wellFormed s \<and> (\<forall>b \<in> set (bookings s). bId b \<noteq> i \<longrightarrow> lastRowAgrees s b)"

definition consistent :: "PersistentStorage \<Rightarrow> bool" where
  "consistent s \<longleftrightarrow> wellFormed s \<and> (\<forall>b \<in> set (bookings s). lastRowAgrees s b)"

section \<open>The status handler on the values of the wire\<close>

text \<open>
  \<^verbatim>\<open>const { status, remarks } = req.body\<close>: the handler of
  \<^verbatim>\<open>PATCH /api/bookings/:id/status\<close> does not check that \<^verbatim>\<open>status\<close> is one of the eight
  declared values, and the types of TypeScript are gone at run time. This section
  follows the same lines of \<^verbatim>\<open>routes.ts\<close> and \<^verbatim>\<open>persistent-storage.ts\<close> with the status
  as the string the client sent, in bookings and history rows as well.
\<close>

record RawBooking = InsertBooking +
  rId :: string
  rStatus :: string
  rGdApprovalDate :: "int option"
  rGdRemarks :: "string option"
  rSecretaryApprovalDate :: "int option"
  rSecretaryRemarks :: "string option"
  rItSetupDate :: "int option"
  rItRemarks :: "string option"
  rCreatedAt :: int
  rUpdatedAt :: int

record RawBookingHistory =
  rBookingId :: string
  rHStatus :: string
  rRemarks :: "string option"
  rChangedBy :: string
  rHId :: string
  rHCreatedAt :: int

text \<open>The two arrays the status handler works on, and the environment as before.\<close>

record RawStorage =
  rBookings :: "RawBooking list"
  rBookingHistory :: "RawBookingHistory list"
  rRandomIds :: "nat \<Rightarrow> string"
  rIdCalls :: nat
  rClock :: "nat \<Rightarrow> int"
  rClockCalls :: nat

text \<open>\<^verbatim>\<open>addBookingHistory\<close>, with the id drawn and the clock read in place.\<close>

definition rawAddBookingHistory ::
  "RawStorage \<Rightarrow> string \<Rightarrow> string \<Rightarrow> string option \<Rightarrow> string
     \<Rightarrow> RawBookingHistory \<times> RawStorage" where
  "rawAddBookingHistory s bookingId' status' remarks' changedBy' =
     (let history = \<lparr>rBookingId = bookingId', rHStatus = status', rRemarks = remarks',
                     rChangedBy = changedBy', rHId = rRandomIds s (rIdCalls s),
                     rHCreatedAt = rClock s (rClockCalls s)\<rparr>
      in (history, s\<lparr>rBookingHistory := rBookingHistory s @ [history],
                      rIdCalls := Suc (rIdCalls s),
                      rClockCalls := Suc (rClockCalls s)\<rparr>))"

text \<open>The \<^verbatim>\<open>switch (status)\<close> of \<^verbatim>\<open>updateBookingStatus\<close>: five case labels, no default.\<close>

definition rawStageUpdates ::
  "string \<Rightarrow> int \<Rightarrow> string option \<Rightarrow> RawBooking \<Rightarrow> RawBooking" where
  "rawStageUpdates status' now remarks' b =
     (if status' = ''gd_approved'' \<or> status' = ''gd_rejected''
      then b\<lparr>rGdApprovalDate := Some now, rGdRemarks := remarks'\<rparr>
      else if status' = ''secretary_approved'' \<or> status' = ''secretary_rejected''
      then b\<lparr>rSecretaryApprovalDate := Some now, rSecretaryRemarks := remarks'\<rparr>
      else if status' = ''it_setup_complete''
      then b\<lparr>rItSetupDate := Some now, rItRemarks := remarks'\<rparr>
      else b)"

definition rawRemarksOrDefault :: "string option \<Rightarrow> string \<Rightarrow> string" where
  "rawRemarksOrDefault remarks' status' =
     (case remarks' of
        None \<Rightarrow> ''Status updated to '' @ status'
      | Some r \<Rightarrow> if r = [] then ''Status updated to '' @ status' else r)"

text \<open>What a handler's \<^verbatim>\<open>try\<close> block can throw on this path.\<close>

datatype Thrown = BookingNotFoundError | TypeError

definition rawUpdateBookingStatus ::
  "RawStorage \<Rightarrow> string \<Rightarrow> string \<Rightarrow> string \<Rightarrow> string option
     \<Rightarrow> Thrown + RawBooking \<times> RawStorage" where
  "rawUpdateBookingStatus s i status' userId' remarks' =
     (case findIndex (\<lambda>b. rId b = i) (rBookings s) of
        None \<Rightarrow> Inl BookingNotFoundError
      | Some index \<Rightarrow>
          let now = rClock s (rClockCalls s);
              s1 = s\<lparr>rClockCalls := Suc (rClockCalls s)\<rparr>;
              old = rBookings s1 ! index;
              new = rawStageUpdates status' now remarks'
                      (old\<lparr>rStatus := status', rUpdatedAt := now\<rparr>);
              s2 = s1\<lparr>rBookings := (rBookings s1)[index := new]\<rparr>;
              s3 = snd (rawAddBookingHistory s2 i status'
                     (Some (rawRemarksOrDefault remarks' status')) userId')
          in Inr (new, s3))"

text \<open>
  \<^verbatim>\<open>allowedRoles[status]\<close> reads a property of an object literal. The literal has
  five keys of its own; like every object literal it inherits the members of
  \<^verbatim>\<open>Object.prototype\<close>, whose names are listed here; any other key gives
  \<^verbatim>\<open>undefined\<close>.
\<close>

definition objectPrototypeMembers :: "string list" where
  "objectPrototypeMembers =
     [''constructor'', ''__defineGetter__'', ''__defineSetter__'', ''hasOwnProperty'',
      ''__lookupGetter__'', ''__lookupSetter__'', ''isPrototypeOf'',
      ''propertyIsEnumerable'', ''toString'', ''valueOf'', ''__proto__'',
      ''toLocaleString'']"

datatype Member = Undefined | Roles "UserRole list" | Inherited

definition allowedRolesMember :: "string \<Rightarrow> Member" where
  "allowedRolesMember key =
     (if key = ''gd_approved'' then Roles [group_director]
      else if key = ''gd_rejected'' then Roles [group_director]
      else if key = ''secretary_approved'' then Roles [secretary]
      else if key = ''secretary_rejected'' then Roles [secretary]
      else if key = ''it_setup_complete'' then Roles [it_team]
      else if key \<in> set objectPrototypeMembers then Inherited
      else Undefined)"

text \<open>
  The condition \<^verbatim>\<open>allowedRoles[status] && !allowedRoles[status].includes(user.role)\<close>:
  \<^verbatim>\<open>undefined\<close> is falsy; an array of roles is asked whether it includes the role; an
  inherited member is truthy (a function, or the prototype object) and has no
  \<^verbatim>\<open>includes\<close>, so the call throws a \<^verbatim>\<open>TypeError\<close>.
\<close>

definition insufficientPermissions :: "string \<Rightarrow> UserRole \<Rightarrow> Thrown + bool" where
  "insufficientPermissions status' role' =
     (case allowedRolesMember status' of
        Undefined \<Rightarrow> Inr False
      | Roles roles \<Rightarrow> Inr (role' \<notin> set roles)
      | Inherited \<Rightarrow> Inl TypeError)"

datatype RawBody = RawMessage string | RawBookingJson RawBooking

text \<open>
  The handler. Whatever the \<^verbatim>\<open>try\<close> block throws, the \<^verbatim>\<open>catch\<close> answers 500; the
  broadcast reads the clock once more.
\<close>

definition patchBookingStatusRaw ::
  "RawStorage \<Rightarrow> User \<Rightarrow> string \<Rightarrow> string \<Rightarrow> string option
     \<Rightarrow> (nat \<times> RawBody) \<times> RawStorage" where
  "patchBookingStatusRaw s actor bookingId' status' remarks' =
     (case insufficientPermissions status' (role actor) of
        Inl _ \<Rightarrow> ((500, RawMessage ''Failed to update booking status''), s)
      | Inr True \<Rightarrow> ((403, RawMessage ''Insufficient permissions''), s)
      | Inr False \<Rightarrow>
          (case rawUpdateBookingStatus s bookingId' status' (uId actor) remarks' of
             Inl _ \<Rightarrow> ((500, RawMessage ''Failed to update booking status''), s)
           | Inr (booking, s1) \<Rightarrow>
               let s2 = s1\<lparr>rClockCalls := Suc (rClockCalls s1)\<rparr>
               in ((200, RawBookingJson booking), s2)))"

text \<open>
  A store of declared values seen on the wire: each status by its name, the users
  and venues (which the status handler does not read) left out.
\<close>

definition rawBooking :: "Booking \<Rightarrow> RawBooking" where
  "rawBooking b =
     \<lparr>userId = userId b, venueId = venueId b, eventTitle = eventTitle b,
      eventDescription = eventDescription b, meetingType = meetingType b,
      eventDate = eventDate b, startTime = startTime b, endTime = endTime b,
      expectedAttendees = expectedAttendees b, department = department b,
      requestedResources = requestedResources b,
      specialRequirements = specialRequirements b,
      rId = bId b, rStatus = statusName (status b),
      rGdApprovalDate = gdApprovalDate b, rGdRemarks = gdRemarks b,
      rSecretaryApprovalDate = secretaryApprovalDate b,
      rSecretaryRemarks = secretaryRemarks b,
      rItSetupDate = itSetupDate b, rItRemarks = itRemarks b,
      rCreatedAt = createdAt b, rUpdatedAt = updatedAt b\<rparr>"

definition rawBookingHistory :: "BookingHistory \<Rightarrow> RawBookingHistory" where
  "rawBookingHistory h =
     \<lparr>rBookingId = bookingId h, rHStatus = statusName (hStatus h), rRemarks = remarks h,
      rChangedBy = changedBy h, rHId = hId h, rHCreatedAt = hCreatedAt h\<rparr>"

definition rawStorage :: "PersistentStorage \<Rightarrow> RawStorage" where
  "rawStorage s =
     \<lparr>rBookings = map rawBooking (bookings s),
      rBookingHistory = map rawBookingHistory (bookingHistory s),
      rRandomIds = randomIds s, rIdCalls = idCalls s,
      rClock = clock s, rClockCalls = clockCalls s\<rparr>"

fun rawResponse :: "Response \<Rightarrow> nat \<times> RawBody" where
  "rawResponse (code, Message m) = (code, RawMessage m)"
| "rawResponse (code, BookingJson b) = (code, RawBookingJson (rawBooking b))"


section \<open>Evaluation\<close>

lemmas handler_defs =
  postBooking_def patchBooking_def patchBookingCancel_def patchBookingStatus_def
  parseBooking_def broadcastStatusUpdate_def checkVenueAvailability_def createBooking_def
  updateBooking_def updateBookingStatus_def addBookingHistory_def getBooking_def
  getUser_def getVenue_def generateId_def newDate_def stageUpdates_def
  remarksOrDefault_def toDateString_def

lemmas demo_defs =
  alice_def mallory_def hall_def emptyStore_def march1_def march2_def demoRequest_def

text \<open>The booking and the history rows of \<^const>\<open>bookedStore\<close>, as the handler left them.\<close>

lemma bookings_bookedStore:
  "bookings bookedStore =
     [\<lparr>userId = ''u1'', venueId = ''v1'', eventTitle = ''Review'',
       eventDescription = None, meetingType = offline, eventDate = march1,
       startTime = ''10:00'', endTime = ''12:00'', expectedAttendees = 20,
       department = ''R&D'', requestedResources = None, specialRequirements = None,
       bId = ''b'', status = submitted, gdApprovalDate = None, gdRemarks = None,
       secretaryApprovalDate = None, secretaryRemarks = None, itSetupDate = None,
       itRemarks = None, createdAt = 1000, updatedAt = 1001\<rparr>]"
  by (simp add: bookedStore_def handler_defs demo_defs Let_def)

section \<open>The availability check\<close>



section \<open>The history ledger\<close>

text \<open>
  C8. \<^const>\<open>getBookingHistory\<close> returns exactly the history rows of the booking id,
  each as often as the store holds it, in ascending order of creation time.
\<close>

theorem getBookingHistory_sorted_ascending:
  "mset (getBookingHistory s i) = mset (filter (\<lambda>h. bookingId h = i) (bookingHistory s))
   \<and> set (getBookingHistory s i) = {h \<in> set (bookingHistory s). bookingId h = i}
   \<and> sorted (map hCreatedAt (getBookingHistory s i))"
  by (simp add: getBookingHistory_def)

section \<open>Status transitions\<close>

lemma findIndex_Some:
  "findIndex P xs = Some n \<Longrightarrow> n < length xs \<and> P (xs ! n) \<and> (\<forall>m < n. \<not> P (xs ! m))"
proof (induction xs arbitrary: n)
  case Nil
  then show ?case by simp
next
  case (Cons x xs)
  show ?case
  proof (cases "P x")
    case True
    with Cons.prems show ?thesis by simp
  next
    case False
    with Cons.prems obtain k where k: "findIndex P xs = Some k" "n = Suc k"
      by auto
    from Cons.IH [OF k(1)] False k(2) show ?thesis
      by (auto simp: less_Suc_eq_0_disj)
  qed
qed

lemma findIndex_None: "findIndex P xs = None \<longleftrightarrow> (\<forall>x \<in> set xs. \<not> P x)"
  by (induction xs) auto

lemma findIndex_exists:
  assumes "i \<in> f ` set xs"
  obtains n where "findIndex (\<lambda>x. f x = i) xs = Some n" "n < length xs" "f (xs ! n) = i"
proof -
  from assms have "findIndex (\<lambda>x. f x = i) xs \<noteq> None"
    by (auto simp: findIndex_None)
  then obtain n where n: "findIndex (\<lambda>x. f x = i) xs = Some n"
    by blast
  with findIndex_Some [OF n] that show thesis
    by blast
qed

text \<open>What \<^const>\<open>updateBookingStatus\<close> returns when the booking is found.\<close>

lemma updateBookingStatus_found:
  assumes "findIndex (\<lambda>b. bId b = i) (bookings s) = Some index"
  shows "updateBookingStatus s i st uid r =
    Inr (stageUpdates st (clock s (clockCalls s)) r
           ((bookings s ! index)\<lparr>status := st, updatedAt := clock s (clockCalls s)\<rparr>),
         s\<lparr>bookings := (bookings s)[index :=
              stageUpdates st (clock s (clockCalls s)) r
                ((bookings s ! index)\<lparr>status := st, updatedAt := clock s (clockCalls s)\<rparr>)],
           bookingHistory := bookingHistory s @
             [\<lparr>bookingId = i, hStatus = st, remarks = Some (remarksOrDefault r st),
               changedBy = uid, hId = randomIds s (idCalls s),
               hCreatedAt = clock s (Suc (clockCalls s))\<rparr>],
           idCalls := Suc (idCalls s),
           clockCalls := Suc (Suc (clockCalls s))\<rparr>)"
  using assms
  by (simp add: updateBookingStatus_def addBookingHistory_def generateId_def newDate_def
        Let_def)

lemma updateBookingStatus_missing:
  "findIndex (\<lambda>b. bId b = i) (bookings s) = None \<Longrightarrow>
     updateBookingStatus s i st uid r = Inl BookingNotFound"
  by (simp add: updateBookingStatus_def)

text \<open>
  C4. A status transition that succeeds replaces the booking found under the id by
  the returned one, which carries the new status. With \<open>now\<close> the clock reading of the
  transition: for gd_approved and gd_rejected \<^const>\<open>gdApprovalDate\<close> is \<open>now\<close> and
  \<^const>\<open>gdRemarks\<close> the remarks; for secretary_approved and secretary_rejected the
  secretary's two fields; for it_setup_complete the two IT fields; the stage fields of
  the other stages, and for submitted, cancelled and completed all six, stay as they
  were. Exactly one history row is appended: the booking id, the new status, the
  remarks given or, when they are absent or empty, the default message, the acting
  user, and the time of a later clock reading.
\<close>

theorem updateBookingStatus_stamps_and_logs:
  assumes "updateBookingStatus s i st uid r = Inr (b', s')"
  shows "\<exists>index. findIndex (\<lambda>b. bId b = i) (bookings s) = Some index
     \<and> bookings s' = (bookings s)[index := b']
     \<and> status b' = st
     \<and> updatedAt b' = clock s (clockCalls s)
     \<and> (st \<in> {gd_approved, gd_rejected} \<longrightarrow>
          gdApprovalDate b' = Some (clock s (clockCalls s)) \<and> gdRemarks b' = r)
     \<and> (st \<in> {secretary_approved, secretary_rejected} \<longrightarrow>
          secretaryApprovalDate b' = Some (clock s (clockCalls s)) \<and> secretaryRemarks b' = r)
     \<and> (st = it_setup_complete \<longrightarrow>
          itSetupDate b' = Some (clock s (clockCalls s)) \<and> itRemarks b' = r)
     \<and> (st \<notin> {gd_approved, gd_rejected} \<longrightarrow>
          gdApprovalDate b' = gdApprovalDate (bookings s ! index) \<and>
          gdRemarks b' = gdRemarks (bookings s ! index))
     \<and> (st \<notin> {secretary_approved, secretary_rejected} \<longrightarrow>
          secretaryApprovalDate b' = secretaryApprovalDate (bookings s ! index) \<and>
          secretaryRemarks b' = secretaryRemarks (bookings s ! index))
     \<and> (st \<noteq> it_setup_complete \<longrightarrow>
          itSetupDate b' = itSetupDate (bookings s ! index) \<and>
          itRemarks b' = itRemarks (bookings s ! index))
     \<and> bookingHistory s' = bookingHistory s @
          [\<lparr>bookingId = i, hStatus = st,
            remarks = Some (if r = None \<or> r = Some [] then ''Status updated to '' @ statusName st
                            else the r),
            changedBy = uid, hId = randomIds s (idCalls s),
            hCreatedAt = clock s (Suc (clockCalls s))\<rparr>]"
proof -
  from assms obtain index where index: "findIndex (\<lambda>b. bId b = i) (bookings s) = Some index"
    by (cases "findIndex (\<lambda>b. bId b = i) (bookings s)")
       (simp_all add: updateBookingStatus_missing)
  have rem: "remarksOrDefault r st =
      (if r = None \<or> r = Some [] then ''Status updated to '' @ statusName st else the r)"
    by (simp add: remarksOrDefault_def split: option.splits)
  from assms have b': "b' = stageUpdates st (clock s (clockCalls s)) r
           ((bookings s ! index)\<lparr>status := st, updatedAt := clock s (clockCalls s)\<rparr>)"
    and s': "s' = s\<lparr>bookings := (bookings s)[index := b'],
           bookingHistory := bookingHistory s @
             [\<lparr>bookingId = i, hStatus = st, remarks = Some (remarksOrDefault r st),
               changedBy = uid, hId = randomIds s (idCalls s),
               hCreatedAt = clock s (Suc (clockCalls s))\<rparr>],
           idCalls := Suc (idCalls s),
           clockCalls := Suc (Suc (clockCalls s))\<rparr>"
    unfolding updateBookingStatus_found [OF index] by auto
  have fields: "status b' = st" "updatedAt b' = clock s (clockCalls s)"
    "st \<in> {gd_approved, gd_rejected} \<longrightarrow>
          gdApprovalDate b' = Some (clock s (clockCalls s)) \<and> gdRemarks b' = r"
    "st \<in> {secretary_approved, secretary_rejected} \<longrightarrow>
          secretaryApprovalDate b' = Some (clock s (clockCalls s)) \<and> secretaryRemarks b' = r"
    "st = it_setup_complete \<longrightarrow>
          itSetupDate b' = Some (clock s (clockCalls s)) \<and> itRemarks b' = r"
    "st \<notin> {gd_approved, gd_rejected} \<longrightarrow>
          gdApprovalDate b' = gdApprovalDate (bookings s ! index) \<and>
          gdRemarks b' = gdRemarks (bookings s ! index)"
    "st \<notin> {secretary_approved, secretary_rejected} \<longrightarrow>
          secretaryApprovalDate b' = secretaryApprovalDate (bookings s ! index) \<and>
          secretaryRemarks b' = secretaryRemarks (bookings s ! index)"
    "st \<noteq> it_setup_complete \<longrightarrow>
          itSetupDate b' = itSetupDate (bookings s ! index) \<and>
          itRemarks b' = itRemarks (bookings s ! index)"
    unfolding b' by (cases st; simp add: stageUpdates_def)+
  have "bookings s' = (bookings s)[index := b']"
    by (subst s') simp
  moreover have "bookingHistory s' = bookingHistory s @
          [\<lparr>bookingId = i, hStatus = st,
            remarks = Some (if r = None \<or> r = Some [] then ''Status updated to '' @ statusName st
                            else the r),
            changedBy = uid, hId = randomIds s (idCalls s),
            hCreatedAt = clock s (Suc (clockCalls s))\<rparr>]"
    by (subst s') (simp add: rem)
  ultimately show ?thesis
    using index fields by blast
qed

text \<open>
  On \<^const>\<open>bookedStore\<close>: the director (user id \<^verbatim>\<open>u3\<close>) approves booking \<^verbatim>\<open>b\<close> with the
  remark "ok"; the history grows from two rows to three.
\<close>

theorem updateBookingStatus_stamps_and_logs_witness:
  "\<exists>b' s'. updateBookingStatus bookedStore ''b'' gd_approved ''u3'' (Some ''ok'') = Inr (b', s')
     \<and> status b' = gd_approved \<and> gdApprovalDate b' = Some 1005 \<and> gdRemarks b' = Some ''ok''
     \<and> secretaryApprovalDate b' = None \<and> itSetupDate b' = None
     \<and> length (bookingHistory bookedStore) = 2
     \<and> length (bookingHistory s') = 3
     \<and> remarks (last (bookingHistory s')) = Some ''ok''
     \<and> hStatus (last (bookingHistory s')) = gd_approved
     \<and> changedBy (last (bookingHistory s')) = ''u3''"
proof -
  have idx: "findIndex (\<lambda>b. bId b = ''b'') (bookings bookedStore) = Some 0"
    by (simp add: bookings_bookedStore)
  have env: "clock bookedStore (clockCalls bookedStore) = 1005"
    "length (bookingHistory bookedStore) = 2"
    by (simp_all add: bookedStore_def handler_defs demo_defs Let_def)
  obtain b' s' where run:
    "updateBookingStatus bookedStore ''b'' gd_approved ''u3'' (Some ''ok'') = Inr (b', s')"
    unfolding updateBookingStatus_found [OF idx] by blast
  from updateBookingStatus_stamps_and_logs [OF run] idx env
  have "status b' = gd_approved \<and> gdApprovalDate b' = Some 1005 \<and> gdRemarks b' = Some ''ok''
     \<and> secretaryApprovalDate b' = None \<and> itSetupDate b' = None
     \<and> length (bookingHistory bookedStore) = 2
     \<and> length (bookingHistory s') = 3
     \<and> remarks (last (bookingHistory s')) = Some ''ok''
     \<and> hStatus (last (bookingHistory s')) = gd_approved
     \<and> changedBy (last (bookingHistory s')) = ''u3''"
    by (auto simp: bookings_bookedStore)
  with run show ?thesis by blast
qed

section \<open>Authorization of the status handler\<close>

text \<open>The five gated statuses: a role outside the list is answered 403, nothing changes.\<close>

lemma patchBookingStatus_forbidden:
  assumes "allowedRoles st = Some roles" "role actor \<notin> set roles"
  shows "patchBookingStatus s actor i st r = ((403, Message ''Insufficient permissions''), s)"
  using assms by (simp add: patchBookingStatus_def)

lemma allowedRoles_None:
  "allowedRoles st = None \<longleftrightarrow>
     st \<notin> {gd_approved, gd_rejected, secretary_approved, secretary_rejected,
            it_setup_complete}"
  by (cases st) simp_all

text \<open>
  On the declared statuses the gate of the status handler covers the five stage
  statuses only. A request for one of the other three (submitted, completed or
  cancelled) by any actor, owner or not and whatever the role, on a booking id that
  exists, is answered 200 whatever the booking's state: the booking under the id now
  carries the requested status.
\<close>

lemma patchBookingStatus_ungated:
  assumes "st \<notin> {gd_approved, gd_rejected, secretary_approved, secretary_rejected,
                  it_setup_complete}"
    and "i \<in> bId ` set (bookings s)"
  shows "\<exists>b' s' index. patchBookingStatus s actor i st r = ((200, BookingJson b'), s')
     \<and> findIndex (\<lambda>b. bId b = i) (bookings s) = Some index
     \<and> bookings s' = (bookings s)[index := b']
     \<and> bId b' = i \<and> status b' = st"
proof -
  from assms(2) obtain index where index:
    "findIndex (\<lambda>b. bId b = i) (bookings s) = Some index" "index < length (bookings s)"
    "bId (bookings s ! index) = i"
    by (rule findIndex_exists)
  from assms(1) have gate: "allowedRoles st = None"
    by (simp add: allowedRoles_None)
  from assms(1) have noStage: "stageUpdates st t r b = b" for t b
    by (cases st) (simp_all add: stageUpdates_def)
  show ?thesis
    using index gate
    by (simp add: patchBookingStatus_def updateBookingStatus_found [OF index(1)] noStage
          broadcastStatusUpdate_def newDate_def Let_def)
qed

text \<open>
  On \<^const>\<open>bookedStore\<close>: mallory, an ordinary user who does not own booking \<^verbatim>\<open>b\<close>,
  marks it completed.
\<close>

lemma patchBookingStatus_ungated_on_bookedStore:
  "\<exists>b' s'. patchBookingStatus bookedStore mallory ''b'' completed None
              = ((200, BookingJson b'), s')
     \<and> map userId (bookings bookedStore) = [''u1'']
     \<and> uId mallory = ''u2'' \<and> role mallory = user
     \<and> map status (bookings bookedStore) = [submitted]
     \<and> map status (bookings s') = [completed]"
proof -
  have pre: "completed \<notin> {gd_approved, gd_rejected, secretary_approved, secretary_rejected,
                  it_setup_complete}"
    "''b'' \<in> bId ` set (bookings bookedStore)"
    by (simp_all add: bookings_bookedStore)
  from patchBookingStatus_ungated [OF pre, of mallory None]
  obtain b' s' index where run:
    "patchBookingStatus bookedStore mallory ''b'' completed None = ((200, BookingJson b'), s')"
    "findIndex (\<lambda>b. bId b = ''b'') (bookings bookedStore) = Some index"
    "bookings s' = (bookings bookedStore)[index := b']" "status b' = completed"
    by blast
  from run(2) have "index = 0"
    by (simp add: bookings_bookedStore)
  with run(3,4) have "map status (bookings s') = [completed]"
    by (simp add: bookings_bookedStore)
  moreover have "map userId (bookings bookedStore) = [''u1'']"
    "map status (bookings bookedStore) = [submitted]"
    "uId mallory = ''u2''" "role mallory = user"
    by (simp_all add: bookings_bookedStore mallory_def)
  ultimately show ?thesis using run(1)
    by (intro exI [of _ b'] exI [of _ s'] conjI)
qed

section \<open>Double booking\<close>

text \<open>The shape of a conflict, as \<^const>\<open>checkVenueAvailability\<close> tests it.\<close>

lemma checkVenueAvailability_conflict:
  assumes "b \<in> set (bookings s)" "ex \<noteq> Some (bId b)" "venueId b = v"
    "toDateString (eventDate b) = toDateString d"
    "status b \<in> {submitted, gd_approved, secretary_approved, it_setup_complete, completed}"
    "\<not> (et \<le> startTime b \<or> st \<ge> endTime b)"
  shows "\<not> checkVenueAvailability s v d st et ex"
proof -
  from assms(2) have "\<not> (case ex of None \<Rightarrow> False | Some e \<Rightarrow> e \<noteq> [] \<and> bId b = e)"
    by (auto split: option.splits)
  moreover from assms(5) have "status b \<noteq> cancelled" "status b \<noteq> gd_rejected"
    "status b \<noteq> secretary_rejected"
    by auto
  ultimately show ?thesis using assms(1,3,4,6)
    by (auto simp: checkVenueAvailability_def Let_def filter_empty_conv)
qed

text \<open>A request that the edit handler turns down leaves the store as it was.\<close>

lemma patchBooking_unavailable_unchanged:
  assumes "\<not> checkVenueAvailability s (venueId d) (eventDate d) (startTime d) (endTime d)
              (Some i)"
  shows "snd (patchBooking s actor i (Some d)) = s
     \<and> fst (fst (patchBooking s actor i (Some d))) \<in> {400, 403, 404}"
  using assms
  by (auto simp: patchBooking_def parseBooking_def split: option.splits prod.splits)

text \<open>
  C6. A creation request whose venue, day and time range overlap an active booking is
  answered 400 with the double-booking message, and the store is what it was. An
  edit request that overlaps an active booking other than the edited one is turned
  down with the store unchanged as well: with the double-booking message when the
  booking exists, the actor owns it and its status allows editing, and with 404, 403
  or 400 of the earlier checks otherwise.
\<close>

theorem conflict_fails_without_mutation:
  assumes "b \<in> set (bookings s)" "venueId b = venueId d"
    "toDateString (eventDate b) = toDateString (eventDate d)"
    "status b \<in> {submitted, gd_approved, secretary_approved, it_setup_complete, completed}"
    "\<not> (endTime d \<le> startTime b \<or> startTime d \<ge> endTime b)"
  shows "postBooking s actor (Some d)
           = ((400, Message ''Venue not available for the selected time slot''), s)
     \<and> (bId b \<noteq> i \<longrightarrow>
          snd (patchBooking s actor i (Some d)) = s
          \<and> fst (fst (patchBooking s actor i (Some d))) \<in> {400, 403, 404}
          \<and> (\<forall>e u v. getBooking s i = Some (e, u, v) \<and> userId e = uId actor
                 \<and> status e \<in> {submitted, gd_rejected, secretary_rejected} \<longrightarrow>
               patchBooking s actor i (Some d)
                 = ((400, Message ''Venue not available for the selected time slot''), s)))"
proof -
  have create: "\<not> checkVenueAvailability s (venueId d) (eventDate d) (startTime d)
      (endTime d) None"
    using assms by (intro checkVenueAvailability_conflict [of b]) simp_all
  have edit: "\<not> checkVenueAvailability s (venueId d) (eventDate d) (startTime d)
      (endTime d) (Some i)" if "bId b \<noteq> i"
    using assms that by (intro checkVenueAvailability_conflict [of b]) auto
  have "postBooking s actor (Some d)
           = ((400, Message ''Venue not available for the selected time slot''), s)"
    using create by (simp add: postBooking_def parseBooking_def)
  moreover have "snd (patchBooking s actor i (Some d)) = s
      \<and> fst (fst (patchBooking s actor i (Some d))) \<in> {400, 403, 404}" if "bId b \<noteq> i"
    using edit [OF that] by (rule patchBooking_unavailable_unchanged)
  moreover have "patchBooking s actor i (Some d)
        = ((400, Message ''Venue not available for the selected time slot''), s)"
    if "bId b \<noteq> i" "getBooking s i = Some (e, u, v)" "userId e = uId actor"
      "status e \<in> {submitted, gd_rejected, secretary_rejected}" for e u v
    using edit [OF that(1)] that(2-4)
    by (auto simp: patchBooking_def parseBooking_def)
  ultimately show ?thesis by blast
qed

section \<open>The handlers on the small installation\<close>

lemma bookingHistory_bookedStore:
  "bookingHistory bookedStore =
     [\<lparr>bookingId = ''b'', hStatus = submitted, remarks = Some ''Booking request submitted'',
       changedBy = ''u1'', hId = ''bb'', hCreatedAt = 1002\<rparr>,
      \<lparr>bookingId = ''b'', hStatus = submitted, remarks = Some ''Booking request submitted'',
       changedBy = ''u1'', hId = ''bbb'', hCreatedAt = 1003\<rparr>]"
  by (simp add: bookedStore_def handler_defs demo_defs Let_def)

lemma counters_bookedStore:
  "idCalls bookedStore = 3" "clockCalls bookedStore = 5"
  "users bookedStore = [alice, mallory]" "venues bookedStore = [hall]"
  "randomIds bookedStore = (\<lambda>n. replicate (Suc n) CHR ''b'')"
  "clock bookedStore = (\<lambda>n. 1000 + int n)"
  by (simp_all add: bookedStore_def handler_defs emptyStore_def demoRequest_def Let_def)

text \<open>
  C7. Alice's creation request on the empty store is answered 200 and the booking is
  submitted, but the history of the new booking holds two rows, not one:
  \<^const>\<open>createBooking\<close> has pushed the first row when the handler pushes its own.
\<close>

theorem postBooking_two_history_rows:
  "fst (fst (postBooking emptyStore alice (Some demoRequest))) = 200
   \<and> map bId (bookings (snd (postBooking emptyStore alice (Some demoRequest)))) = [''b'']
   \<and> map status (bookings (snd (postBooking emptyStore alice (Some demoRequest))))
       = [submitted]
   \<and> length (getBookingHistory (snd (postBooking emptyStore alice (Some demoRequest))) ''b'')
       = 2
   \<and> map remarks
       (getBookingHistory (snd (postBooking emptyStore alice (Some demoRequest))) ''b'')
       = [Some ''Booking request submitted'', Some ''Booking request submitted'']"
proof -
  have "fst (fst (postBooking emptyStore alice (Some demoRequest))) = 200"
    by (simp add: handler_defs demo_defs Let_def)
  then show ?thesis
    unfolding bookedStore_def [symmetric]
    by (simp add: getBookingHistory_def bookings_bookedStore bookingHistory_bookedStore)
qed

text \<open>
  C2. Mallory, an ordinary user who does not own booking \<^verbatim>\<open>b\<close>, asks the status
  handler to cancel it: the answer is 200 and the booking is cancelled. The cancel
  handler answers the same actor 403.
\<close>

theorem patchBookingStatus_cancel_by_stranger:
  "map userId (bookings bookedStore) = [''u1''] \<and> uId mallory = ''u2''
   \<and> fst (fst (patchBookingStatus bookedStore mallory ''b'' cancelled None)) = 200
   \<and> map status (bookings (snd (patchBookingStatus bookedStore mallory ''b'' cancelled None)))
       = [cancelled]
   \<and> patchBookingCancel bookedStore mallory ''b''
       = ((403, Message ''Not authorized to cancel this booking''), bookedStore)"
proof -
  have idx: "findIndex (\<lambda>b. bId b = ''b'') (bookings bookedStore) = Some 0"
    by (simp add: bookings_bookedStore)
  have "fst (fst (patchBookingStatus bookedStore mallory ''b'' cancelled None)) = 200"
    "map status (bookings (snd (patchBookingStatus bookedStore mallory ''b'' cancelled None)))
       = [cancelled]"
    by (simp_all add: patchBookingStatus_def updateBookingStatus_found [OF idx]
          broadcastStatusUpdate_def newDate_def stageUpdates_def bookings_bookedStore Let_def)
  moreover have "patchBookingCancel bookedStore mallory ''b''
       = ((403, Message ''Not authorized to cancel this booking''), bookedStore)"
    by (simp add: patchBookingCancel_def getBooking_def getUser_def getVenue_def
          bookings_bookedStore counters_bookedStore alice_def mallory_def hall_def)
  moreover have "map userId (bookings bookedStore) = [''u1'']" "uId mallory = ''u2''"
    by (simp_all add: bookings_bookedStore mallory_def)
  ultimately show ?thesis by (intro conjI)
qed

text \<open>
  C9. A status request for an id that no booking has: the store is unchanged, and the
  answer is 500 with a general message. The cancel handler answers the same id 404.
\<close>

theorem patchBookingStatus_unknown_id:
  "''nope'' \<notin> bId ` set (bookings bookedStore)
   \<and> patchBookingStatus bookedStore alice ''nope'' completed None
       = ((500, Message ''Failed to update booking status''), bookedStore)
   \<and> patchBookingCancel bookedStore alice ''nope''
       = ((404, Message ''Booking not found''), bookedStore)"
proof -
  have idx: "findIndex (\<lambda>b. bId b = ''nope'') (bookings bookedStore) = None"
    by (simp add: bookings_bookedStore)
  have "patchBookingStatus bookedStore alice ''nope'' completed None
       = ((500, Message ''Failed to update booking status''), bookedStore)"
    by (simp add: patchBookingStatus_def updateBookingStatus_missing [OF idx])
  moreover have "patchBookingCancel bookedStore alice ''nope''
       = ((404, Message ''Booking not found''), bookedStore)"
    by (simp add: patchBookingCancel_def getBooking_def bookings_bookedStore)
  moreover have "''nope'' \<notin> bId ` set (bookings bookedStore)"
    by (simp add: bookings_bookedStore)
  ultimately show ?thesis by (intro conjI)
qed

text \<open>In general: an unknown id is answered 403 or 500 and nothing is written.\<close>

lemma unknown_id_writes_nothing:
  assumes "i \<notin> bId ` set (bookings s)"
  shows "snd (patchBookingStatus s actor i st r) = s
     \<and> fst (fst (patchBookingStatus s actor i st r)) \<in> {403, 500}"
proof -
  from assms have "findIndex (\<lambda>b. bId b = i) (bookings s) = None"
    by (auto simp: findIndex_None)
  then show ?thesis
    by (simp add: patchBookingStatus_def updateBookingStatus_missing)
qed

text \<open>
  C5. Alice moves her submitted booking \<^verbatim>\<open>b\<close> to the free range from 13:00 to 14:00:
  the answer is 200, the fields are overwritten and the status is submitted, but the
  history grows by two rows, not one: the row the handler pushes, and the row
  \<^const>\<open>updateBookingStatus\<close> pushes when the handler resets the status.
\<close>

theorem patchBooking_two_history_rows:
  "fst (fst (patchBooking bookedStore alice ''b'' (Some afternoonRequest))) = 200
   \<and> map status (bookings (snd (patchBooking bookedStore alice ''b'' (Some afternoonRequest))))
       = [submitted]
   \<and> map startTime (bookings (snd (patchBooking bookedStore alice ''b'' (Some afternoonRequest))))
       = [''13:00'']
   \<and> length (bookingHistory bookedStore) = 2
   \<and> length (bookingHistory (snd (patchBooking bookedStore alice ''b'' (Some afternoonRequest))))
       = 4
   \<and> map remarks (drop 2 (bookingHistory
         (snd (patchBooking bookedStore alice ''b'' (Some afternoonRequest)))))
       = [Some ''Booking updated and resubmitted for approval'', Some ''Booking updated'']"
  by (simp add: bookedStore_def handler_defs demo_defs afternoonRequest_def Let_def)

text \<open>
  On \<^const>\<open>twoBookings\<close>: mallory asks for 11:00 to 13:00, which runs into alice's
  booking \<^verbatim>\<open>b\<close> from 10:00 to 12:00, once as a new booking and once as an edit of her
  own booking \<^verbatim>\<open>bbbb\<close>.
\<close>

lemma bookings_twoBookings:
  "bookings twoBookings =
     [\<lparr>userId = ''u1'', venueId = ''v1'', eventTitle = ''Review'',
       eventDescription = None, meetingType = offline, eventDate = march1,
       startTime = ''10:00'', endTime = ''12:00'', expectedAttendees = 20,
       department = ''R&D'', requestedResources = None, specialRequirements = None,
       bId = ''b'', status = submitted, gdApprovalDate = None, gdRemarks = None,
       secretaryApprovalDate = None, secretaryRemarks = None, itSetupDate = None,
       itRemarks = None, createdAt = 1000, updatedAt = 1001\<rparr>,
      \<lparr>userId = ''u2'', venueId = ''v1'', eventTitle = ''Review'',
       eventDescription = None, meetingType = offline, eventDate = march1,
       startTime = ''13:00'', endTime = ''14:00'', expectedAttendees = 20,
       department = ''R&D'', requestedResources = None, specialRequirements = None,
       bId = ''bbbb'', status = submitted, gdApprovalDate = None, gdRemarks = None,
       secretaryApprovalDate = None, secretaryRemarks = None, itSetupDate = None,
       itRemarks = None, createdAt = 1005, updatedAt = 1006\<rparr>]"
  "users twoBookings = [alice, mallory]" "venues twoBookings = [hall]"
  by (simp_all add: twoBookings_def bookedStore_def handler_defs demo_defs
        afternoonRequest_def Let_def)

theorem conflict_fails_without_mutation_witness:
  "postBooking twoBookings mallory (Some clashRequest)
     = ((400, Message ''Venue not available for the selected time slot''), twoBookings)
   \<and> patchBooking twoBookings mallory ''bbbb'' (Some clashRequest)
     = ((400, Message ''Venue not available for the selected time slot''), twoBookings)"
proof -
  have pre: "hd (bookings twoBookings) \<in> set (bookings twoBookings)"
    "venueId (hd (bookings twoBookings)) = venueId clashRequest"
    "toDateString (eventDate (hd (bookings twoBookings)))
       = toDateString (eventDate clashRequest)"
    "status (hd (bookings twoBookings))
       \<in> {submitted, gd_approved, secretary_approved, it_setup_complete, completed}"
    "\<not> (endTime clashRequest \<le> startTime (hd (bookings twoBookings))
        \<or> startTime clashRequest \<ge> endTime (hd (bookings twoBookings)))"
    by (simp_all add: bookings_twoBookings clashRequest_def demoRequest_def)
  have other: "bId (hd (bookings twoBookings)) \<noteq> ''bbbb''"
    by (simp add: bookings_twoBookings)
  have own: "getBooking twoBookings ''bbbb'' = Some (bookings twoBookings ! 1, mallory, hall)
      \<and> userId (bookings twoBookings ! 1) = uId mallory
      \<and> status (bookings twoBookings ! 1) \<in> {submitted, gd_rejected, secretary_rejected}"
    by (simp add: getBooking_def getUser_def getVenue_def bookings_twoBookings alice_def
          mallory_def hall_def)
  note inst = conflict_fails_without_mutation [OF pre, of mallory "''bbbb''"]
  from inst have "postBooking twoBookings mallory (Some clashRequest)
     = ((400, Message ''Venue not available for the selected time slot''), twoBookings)"
    by (rule conjunct1)
  moreover from inst other own have "patchBooking twoBookings mallory ''bbbb'' (Some clashRequest)
     = ((400, Message ''Venue not available for the selected time slot''), twoBookings)"
    by blast
  ultimately show ?thesis by (rule conjI)
qed

section \<open>The history of a booking and its status\<close>

subsection \<open>What the storage operations write\<close>

lemma addBookingHistory_eq:
  "addBookingHistory s d =
     (\<lparr>bookingId = bookingId d, hStatus = hStatus d, remarks = remarks d,
       changedBy = changedBy d, hId = randomIds s (idCalls s),
       hCreatedAt = clock s (clockCalls s)\<rparr>,
      s\<lparr>bookingHistory := bookingHistory s @
           [\<lparr>bookingId = bookingId d, hStatus = hStatus d, remarks = remarks d,
             changedBy = changedBy d, hId = randomIds s (idCalls s),
             hCreatedAt = clock s (clockCalls s)\<rparr>],
        idCalls := Suc (idCalls s), clockCalls := Suc (clockCalls s)\<rparr>)"
  by (simp add: addBookingHistory_def generateId_def newDate_def Let_def)

lemma updateBooking_found:
  assumes "findIndex (\<lambda>b. bId b = i) (bookings s) = Some index"
  shows "\<exists>new. updateBooking s i d =
           Inr (new, s\<lparr>bookings := (bookings s)[index := new],
                       clockCalls := Suc (clockCalls s)\<rparr>)
         \<and> bId new = bId (bookings s ! index) \<and> status new = status (bookings s ! index)"
  using assms by (simp add: updateBooking_def newDate_def Let_def)

lemma updateBooking_missing:
  "findIndex (\<lambda>b. bId b = i) (bookings s) = None \<Longrightarrow>
     updateBooking s i d = Inl BookingNotFound"
  by (simp add: updateBooking_def)

lemma createBooking_eq:
  "\<exists>b. createBooking s d =
       (b, s\<lparr>bookings := bookings s @ [b],
              bookingHistory := bookingHistory s @
                [\<lparr>bookingId = bId b, hStatus = submitted,
                  remarks = Some ''Booking request submitted'', changedBy = userId d,
                  hId = randomIds s (Suc (idCalls s)),
                  hCreatedAt = clock s (Suc (Suc (clockCalls s)))\<rparr>],
              idCalls := Suc (Suc (idCalls s)),
              clockCalls := Suc (Suc (Suc (clockCalls s)))\<rparr>)
     \<and> bId b = randomIds s (idCalls s) \<and> status b = submitted"
  by (simp add: createBooking_def addBookingHistory_def generateId_def newDate_def Let_def)

lemma stageUpdates_keeps [simp]:
  "bId (stageUpdates st t r b) = bId b" "status (stageUpdates st t r b) = status b"
  by (cases st; simp add: stageUpdates_def)+

lemma findIndex_update:
  assumes "findIndex P xs = Some n" "P y"
  shows "findIndex P (xs[n := y]) = Some n"
  using assms
proof (induction xs arbitrary: n)
  case Nil
  then show ?case by simp
next
  case (Cons x xs)
  then show ?case
    by (cases n) (auto split: if_splits)
qed

subsection \<open>Well-formed stores\<close>

lemma ledger_append:
  "bookingHistory s' = bookingHistory s @ [h] \<Longrightarrow>
     ledger s' i = (if bookingId h = i then ledger s i @ [h] else ledger s i)"
  by (simp add: ledger_def)

lemma ledger_same:
  "bookingHistory s' = bookingHistory s \<Longrightarrow> ledger s' i = ledger s i"
  by (simp add: ledger_def)

lemma clock_le:
  assumes "mono (clock s)" "k < clockCalls s" "clockCalls s \<le> m"
  shows "clock s k \<le> clock s m"
  using assms by (auto dest: monoD [of "clock s" k m])

text \<open>One more history row, for a booking that exists, stamped by a later clock reading.\<close>

lemma wellFormed_append_row:
  assumes wf: "wellFormed s"
    and env: "randomIds s' = randomIds s" "clock s' = clock s"
      "idCalls s \<le> idCalls s'"
    and same: "bookings s' = bookings s"
    and row: "bookingHistory s' = bookingHistory s @ [h]"
      "bookingId h \<in> bId ` set (bookings s)"
      "hCreatedAt h = clock s m" "clockCalls s \<le> m" "m < clockCalls s'"
  shows "wellFormed s'"
proof -
  from wf have parts: "inj (randomIds s)" "mono (clock s)" "distinct (map bId (bookings s))"
    "\<forall>i \<in> bId ` set (bookings s). \<exists>k < idCalls s. i = randomIds s k"
    "sorted (map hCreatedAt (bookingHistory s))"
    "\<forall>h \<in> set (bookingHistory s). \<exists>k < clockCalls s. hCreatedAt h = clock s k"
    "\<forall>h \<in> set (bookingHistory s). bookingId h \<in> bId ` set (bookings s)"
    "\<forall>i \<in> bId ` set (bookings s). ledger s i \<noteq> [] \<and> hStatus (hd (ledger s i)) = submitted"
    by (simp_all add: wellFormed_def)
  have ids: "\<forall>i \<in> bId ` set (bookings s'). \<exists>k < idCalls s'. i = randomIds s' k"
    using parts(4) env same by (metis less_le_trans)
  have older: "t \<le> clock s m" if "t \<in> set (map hCreatedAt (bookingHistory s))" for t
  proof -
    from that parts(6) obtain k where "k < clockCalls s" "t = clock s k"
      by auto
    with clock_le [OF parts(2) this(1) row(4)] show ?thesis by simp
  qed
  have sorted: "sorted (map hCreatedAt (bookingHistory s'))"
    using parts(5) older by (simp add: row sorted_append)
  have stamps: "\<forall>h \<in> set (bookingHistory s'). \<exists>k < clockCalls s'. hCreatedAt h = clock s' k"
  proof
    fix x assume "x \<in> set (bookingHistory s')"
    then consider "x \<in> set (bookingHistory s)" | "x = h"
      by (auto simp: row)
    then show "\<exists>k < clockCalls s'. hCreatedAt x = clock s' k"
    proof cases
      case 1
      with parts(6) obtain k where "k < clockCalls s" "hCreatedAt x = clock s k"
        by blast
      with row(4,5) env(2) show ?thesis
        by (intro exI [of _ k]) simp
    next
      case 2
      with row(3,5) env(2) show ?thesis
        by (intro exI [of _ m]) simp
    qed
  qed
  have refs: "\<forall>h \<in> set (bookingHistory s'). bookingId h \<in> bId ` set (bookings s')"
    using parts(7) row(2) by (auto simp: row(1) same)
  have first: "\<forall>i \<in> bId ` set (bookings s').
      ledger s' i \<noteq> [] \<and> hStatus (hd (ledger s' i)) = submitted"
    using parts(8) by (auto simp: ledger_append [OF row(1)] same)
  from parts(1-3) ids sorted stamps refs first show ?thesis
    by (simp add: wellFormed_def env same)
qed

text \<open>The booking at an index replaced by one with the same id.\<close>

lemma ids_update:
  assumes "index < length xs" "bId b' = bId (xs ! index)"
  shows "map bId (xs[index := b']) = map bId xs"
  using assms by (simp add: map_update list_update_same_conv)

lemma wellFormed_replace_booking:
  assumes wf: "wellFormed s"
    and env: "randomIds s' = randomIds s" "clock s' = clock s"
      "idCalls s \<le> idCalls s'" "clockCalls s \<le> clockCalls s'"
    and same: "bookingHistory s' = bookingHistory s"
    and repl: "bookings s' = (bookings s)[index := b']" "index < length (bookings s)"
      "bId b' = bId (bookings s ! index)"
  shows "wellFormed s'"
proof -
  have ids: "map bId (bookings s') = map bId (bookings s)"
    unfolding repl(1) using repl(2,3) by (rule ids_update)
  then have img: "bId ` set (bookings s') = bId ` set (bookings s)"
    by (metis set_map)
  from wf have parts: "inj (randomIds s)" "mono (clock s)" "distinct (map bId (bookings s))"
    "\<forall>i \<in> bId ` set (bookings s). \<exists>k < idCalls s. i = randomIds s k"
    "sorted (map hCreatedAt (bookingHistory s))"
    "\<forall>h \<in> set (bookingHistory s). \<exists>k < clockCalls s. hCreatedAt h = clock s k"
    "\<forall>h \<in> set (bookingHistory s). bookingId h \<in> bId ` set (bookings s)"
    "\<forall>i \<in> bId ` set (bookings s). ledger s i \<noteq> [] \<and> hStatus (hd (ledger s i)) = submitted"
    by (simp_all add: wellFormed_def)
  have a: "\<forall>i \<in> bId ` set (bookings s'). \<exists>k < idCalls s'. i = randomIds s' k"
    using parts(4) env(1,3) unfolding img by (metis less_le_trans)
  have b: "\<forall>h \<in> set (bookingHistory s'). \<exists>k < clockCalls s'. hCreatedAt h = clock s' k"
    using parts(6) env(2,4) unfolding same by (metis less_le_trans)
  have c: "\<forall>i \<in> bId ` set (bookings s').
      ledger s' i \<noteq> [] \<and> hStatus (hd (ledger s' i)) = submitted"
    using parts(8) unfolding img by (simp add: ledger_same [OF same])
  from parts a b c show ?thesis
    by (simp add: wellFormed_def env same ids img)
qed

text \<open>Only the counters of the environment move.\<close>

lemma wellFormed_tick:
  assumes "wellFormed s" "randomIds s' = randomIds s" "clock s' = clock s"
    "idCalls s \<le> idCalls s'" "clockCalls s \<le> clockCalls s'"
    "bookingHistory s' = bookingHistory s" "bookings s' = bookings s"
  shows "wellFormed s'"
proof -
  from assms(1) have parts:
    "\<forall>i \<in> bId ` set (bookings s). \<exists>k < idCalls s. i = randomIds s k"
    "\<forall>h \<in> set (bookingHistory s). \<exists>k < clockCalls s. hCreatedAt h = clock s k"
    by (simp_all add: wellFormed_def)
  have a: "\<forall>i \<in> bId ` set (bookings s). \<exists>k < idCalls s'. i = randomIds s k"
    using parts(1) assms(4) by (metis less_le_trans)
  have b: "\<forall>h \<in> set (bookingHistory s). \<exists>k < clockCalls s'. hCreatedAt h = clock s k"
    using parts(2) assms(5) by (metis less_le_trans)
  from assms(1) a b show ?thesis
    by (simp add: wellFormed_def assms(2,3,6,7) ledger_same [OF assms(6)])
qed

subsection \<open>The last row of a booking's history\<close>

lemma unique_by_id:
  assumes "distinct (map bId xs)" "b \<in> set xs" "c \<in> set xs" "bId b = bId c"
  shows "b = c"
  using assms by (meson distinct_map inj_onD)

lemma wellFormed_distinct: "wellFormed s \<Longrightarrow> distinct (map bId (bookings s))"
  by (simp add: wellFormed_def)

text \<open>
  A row appended for booking \<open>i\<close>: the bookings with another id keep their last row;
  if the row carries the status of booking \<open>i\<close>, all is consistent.
\<close>

lemma consistentExcept_append_row:
  assumes ce: "consistentExcept s i"
    and env: "randomIds s' = randomIds s" "clock s' = clock s"
      "idCalls s \<le> idCalls s'"
    and same: "bookings s' = bookings s"
    and row: "bookingHistory s' = bookingHistory s @ [h]"
      "bookingId h \<in> bId ` set (bookings s)"
      "hCreatedAt h = clock s m" "clockCalls s \<le> m" "m < clockCalls s'"
    and i: "bookingId h = i"
  shows "consistentExcept s' i"
    and "(\<forall>b \<in> set (bookings s). bId b = i \<longrightarrow> status b = hStatus h) \<Longrightarrow> consistent s'"
proof -
  from ce have wf: "wellFormed s"
    and others: "\<forall>b \<in> set (bookings s). bId b \<noteq> i \<longrightarrow> lastRowAgrees s b"
    by (simp_all add: consistentExcept_def)
  have wf': "wellFormed s'"
    using wf env same row by (rule wellFormed_append_row)
  have others': "\<forall>b \<in> set (bookings s'). bId b \<noteq> i \<longrightarrow> lastRowAgrees s' b"
    using others i by (simp add: same lastRowAgrees_def ledger_append [OF row(1)])
  from wf' others' show "consistentExcept s' i"
    by (simp add: consistentExcept_def)
  assume st: "\<forall>b \<in> set (bookings s). bId b = i \<longrightarrow> status b = hStatus h"
  have "lastRowAgrees s' b" if "b \<in> set (bookings s')" for b
  proof (cases "bId b = i")
    case True
    with st that have "status b = hStatus h"
      by (simp add: same)
    with True i show ?thesis
      by (simp add: lastRowAgrees_def ledger_append [OF row(1)])
  next
    case False
    with others' that show ?thesis by blast
  qed
  with wf' show "consistent s'"
    by (simp add: consistent_def)
qed

text \<open>
  The booking at an index replaced by one with the same id: the bookings with an id
  other than \<open>i\<close> keep their last row, provided the new booking keeps the status when
  its id is not \<open>i\<close>.
\<close>

lemma consistentExcept_replace_booking:
  assumes ce: "consistentExcept s i"
    and env: "randomIds s' = randomIds s" "clock s' = clock s"
      "idCalls s \<le> idCalls s'" "clockCalls s \<le> clockCalls s'"
    and same: "bookingHistory s' = bookingHistory s"
    and repl: "bookings s' = (bookings s)[index := b']" "index < length (bookings s)"
      "bId b' = bId (bookings s ! index)"
    and keep: "bId b' \<noteq> i \<Longrightarrow> status b' = status (bookings s ! index)"
  shows "consistentExcept s' i"
proof -
  from ce have wf: "wellFormed s"
    and others: "\<forall>b \<in> set (bookings s). bId b \<noteq> i \<longrightarrow> lastRowAgrees s b"
    by (simp_all add: consistentExcept_def)
  have wf': "wellFormed s'"
    using wf env same repl by (rule wellFormed_replace_booking)
  have "lastRowAgrees s' b" if b: "b \<in> set (bookings s')" "bId b \<noteq> i" for b
  proof -
    from b(1) have "b = b' \<or> b \<in> set (bookings s)"
      unfolding repl(1) using set_update_subset_insert [of "bookings s" index b'] by auto
    then show ?thesis
    proof
      assume "b = b'"
      moreover from repl(2) have "bookings s ! index \<in> set (bookings s)"
        by simp
      ultimately show ?thesis
        using others b(2) repl(3) keep
        by (simp add: lastRowAgrees_def ledger_same [OF same])
    next
      assume "b \<in> set (bookings s)"
      with others b(2) show ?thesis
        by (simp add: lastRowAgrees_def ledger_same [OF same])
    qed
  qed
  with wf' show ?thesis
    by (simp add: consistentExcept_def)
qed

lemma consistent_iff: "consistent s \<longleftrightarrow> (\<forall>i. consistentExcept s i)"
proof
  assume "consistent s"
  then show "\<forall>i. consistentExcept s i"
    by (simp add: consistent_def consistentExcept_def)
next
  assume all: "\<forall>i. consistentExcept s i"
  then have wf: "wellFormed s"
    by (simp add: consistentExcept_def)
  have "lastRowAgrees s b" if "b \<in> set (bookings s)" for b
  proof -
    from all have "consistentExcept s (CHR ''x'' # bId b)" ..
    with that show ?thesis
      by (simp add: consistentExcept_def)
  qed
  with wf show "consistent s"
    by (simp add: consistent_def)
qed

lemma consistent_replace_booking:
  assumes "consistent s"
    and "randomIds s' = randomIds s" "clock s' = clock s"
      "idCalls s \<le> idCalls s'" "clockCalls s \<le> clockCalls s'"
    and "bookingHistory s' = bookingHistory s"
    and "bookings s' = (bookings s)[index := b']" "index < length (bookings s)"
      "bId b' = bId (bookings s ! index)"
    and "status b' = status (bookings s ! index)"
  shows "consistent s'"
  unfolding consistent_iff
proof
  fix i
  from assms(1) have "consistentExcept s i"
    by (simp add: consistent_iff)
  then show "consistentExcept s' i"
    using assms(2-9) by (rule consistentExcept_replace_booking) (rule assms(10))
qed

lemma consistent_tick:
  assumes "consistent s" "randomIds s' = randomIds s" "clock s' = clock s"
    "idCalls s \<le> idCalls s'" "clockCalls s \<le> clockCalls s'"
    "bookingHistory s' = bookingHistory s" "bookings s' = bookings s"
  shows "consistent s'"
proof -
  from assms(1) have "wellFormed s" "\<forall>b \<in> set (bookings s). lastRowAgrees s b"
    by (simp_all add: consistent_def)
  moreover from this(1) assms(2-7) have "wellFormed s'"
    by (rule wellFormed_tick)
  ultimately show ?thesis
    by (simp add: consistent_def assms(7) lastRowAgrees_def ledger_same [OF assms(6)])
qed

subsection \<open>The storage operations keep the history consistent\<close>

text \<open>
  A status update repairs the last row of the booking it updates: whatever that row
  was before, afterwards it carries the new status.
\<close>

lemma updateBookingStatus_consistent:
  assumes ce: "consistentExcept s i"
    and run: "updateBookingStatus s i st uid r = Inr (b', s')"
  shows "consistent s'"
    and "map bId (bookings s') = map bId (bookings s)"
    and "\<forall>b \<in> set (bookings s'). bId b = i \<longrightarrow> status b = st"
proof -
  from run obtain index where index: "findIndex (\<lambda>b. bId b = i) (bookings s) = Some index"
    by (cases "findIndex (\<lambda>b. bId b = i) (bookings s)")
       (simp_all add: updateBookingStatus_missing)
  from findIndex_Some [OF index] have less: "index < length (bookings s)"
    and old: "bId (bookings s ! index) = i"
    by simp_all
  define h where "h = \<lparr>bookingId = i, hStatus = st, remarks = Some (remarksOrDefault r st),
    changedBy = uid, hId = randomIds s (idCalls s), hCreatedAt = clock s (Suc (clockCalls s))\<rparr>"
  from run have b': "b' = stageUpdates st (clock s (clockCalls s)) r
      ((bookings s ! index)\<lparr>status := st, updatedAt := clock s (clockCalls s)\<rparr>)"
    and s': "s' = s\<lparr>bookings := (bookings s)[index := b'],
      bookingHistory := bookingHistory s @ [h],
      idCalls := Suc (idCalls s), clockCalls := Suc (Suc (clockCalls s))\<rparr>"
    unfolding updateBookingStatus_found [OF index] h_def by auto
  from b' old have id': "bId b' = i" and st': "status b' = st"
    by simp_all
  define mid where "mid = s\<lparr>bookings := (bookings s)[index := b']\<rparr>"
  have mid: "consistentExcept mid i"
    using ce
  proof (rule consistentExcept_replace_booking)
    show "bookings mid = (bookings s)[index := b']"
      by (simp add: mid_def)
    show "bId b' = bId (bookings s ! index)"
      by (simp add: id' old)
    show "status b' = status (bookings s ! index)" if "bId b' \<noteq> i"
      using that id' by simp
  qed (simp_all add: mid_def less)
  then have wfmid: "wellFormed mid"
    by (simp add: consistentExcept_def)
  have member: "b' \<in> set (bookings mid)"
    by (simp add: mid_def less set_update_memI)
  have only: "\<forall>b \<in> set (bookings mid). bId b = i \<longrightarrow> status b = hStatus h"
  proof (intro ballI impI)
    fix b assume "b \<in> set (bookings mid)" "bId b = i"
    with unique_by_id [OF wellFormed_distinct [OF wfmid] this(1) member] id'
    have "b = b'" by simp
    with st' show "status b = hStatus h"
      by (simp add: h_def)
  qed
  have ids: "map bId (bookings mid) = map bId (bookings s)"
    by (simp add: mid_def ids_update [OF less] id' old)
  have exists: "bookingId h \<in> bId ` set (bookings mid)"
    using member id' by (auto simp: h_def)
  show "consistent s'"
    using mid _ _ _ _ _ exists _ _ _ _ only
  proof (rule consistentExcept_append_row(2))
    show "hCreatedAt h = clock mid (Suc (clockCalls s))"
      by (simp add: h_def mid_def)
  qed (simp_all add: s' mid_def h_def)
  show "map bId (bookings s') = map bId (bookings s)"
    using ids by (simp add: s' mid_def)
  show "\<forall>b \<in> set (bookings s'). bId b = i \<longrightarrow> status b = st"
    using only by (simp add: s' mid_def h_def)
qed

text \<open>
  A new booking gets an id that no booking and no history row has had, so its
  history is the one row \<^const>\<open>createBooking\<close> writes.
\<close>

lemma createBooking_consistent:
  assumes c: "consistent s"
    and run: "createBooking s d = (b, s1)"
  shows "consistent s1" and "b \<in> set (bookings s1)" and "status b = submitted"
proof -
  from createBooking_eq [of s d] run obtain h where
    s1: "s1 = s\<lparr>bookings := bookings s @ [b], bookingHistory := bookingHistory s @ [h],
              idCalls := Suc (Suc (idCalls s)),
              clockCalls := Suc (Suc (Suc (clockCalls s)))\<rparr>"
    and b: "bId b = randomIds s (idCalls s)" "status b = submitted"
    and h: "bookingId h = bId b" "hStatus h = submitted"
      "hCreatedAt h = clock s (Suc (Suc (clockCalls s)))"
    by auto
  from c have wf: "wellFormed s" and agree: "\<forall>b \<in> set (bookings s). lastRowAgrees s b"
    by (simp_all add: consistent_def)
  from wf have parts: "inj (randomIds s)" "mono (clock s)" "distinct (map bId (bookings s))"
    "\<forall>i \<in> bId ` set (bookings s). \<exists>k < idCalls s. i = randomIds s k"
    "sorted (map hCreatedAt (bookingHistory s))"
    "\<forall>h \<in> set (bookingHistory s). \<exists>k < clockCalls s. hCreatedAt h = clock s k"
    "\<forall>h \<in> set (bookingHistory s). bookingId h \<in> bId ` set (bookings s)"
    "\<forall>i \<in> bId ` set (bookings s). ledger s i \<noteq> [] \<and> hStatus (hd (ledger s i)) = submitted"
    by (simp_all add: wellFormed_def)
  have fresh: "bId b \<notin> bId ` set (bookings s)"
  proof
    assume "bId b \<in> bId ` set (bookings s)"
    with parts(4) obtain k where "k < idCalls s" "bId b = randomIds s k"
      by blast
    with b(1) parts(1) show False
      by (auto dest: injD)
  qed
  have "\<forall>x \<in> set (bookingHistory s). bookingId x \<noteq> bId b"
    using fresh parts(7) by metis
  then have norows: "ledger s (bId b) = []"
    by (simp add: ledger_def filter_empty_conv)
  have hist: "bookingHistory s1 = bookingHistory s @ [h]"
    by (simp add: s1)
  have led: "ledger s1 i = (if i = bId b then [h] else ledger s i)" for i
    using norows h(1) by (auto simp: ledger_append [OF hist])
  have a: "distinct (map bId (bookings s1))"
    using parts(3) fresh by (simp add: s1)
  have ids: "\<forall>i \<in> bId ` set (bookings s1). \<exists>k < idCalls s1. i = randomIds s1 k"
  proof
    fix i assume "i \<in> bId ` set (bookings s1)"
    then consider "i \<in> bId ` set (bookings s)" | "i = bId b"
      by (auto simp: s1)
    then show "\<exists>k < idCalls s1. i = randomIds s1 k"
    proof cases
      case 1
      with parts(4) obtain k where "k < idCalls s" "i = randomIds s k"
        by blast
      then show ?thesis
        by (intro exI [of _ k]) (simp add: s1)
    next
      case 2
      with b(1) show ?thesis
        by (intro exI [of _ "idCalls s"]) (simp add: s1)
    qed
  qed
  have older: "t \<le> clock s (Suc (Suc (clockCalls s)))"
    if "t \<in> set (map hCreatedAt (bookingHistory s))" for t
  proof -
    from that parts(6) obtain k where k: "k < clockCalls s" "t = clock s k"
      by auto
    from clock_le [OF parts(2) k(1), of "Suc (Suc (clockCalls s))"] k(2) show ?thesis
      by simp
  qed
  have sorted: "sorted (map hCreatedAt (bookingHistory s1))"
    using parts(5) older by (simp add: s1 sorted_append h(3))
  have stamps: "\<forall>x \<in> set (bookingHistory s1). \<exists>k < clockCalls s1. hCreatedAt x = clock s1 k"
  proof
    fix x assume "x \<in> set (bookingHistory s1)"
    then consider "x \<in> set (bookingHistory s)" | "x = h"
      by (auto simp: s1)
    then show "\<exists>k < clockCalls s1. hCreatedAt x = clock s1 k"
    proof cases
      case 1
      with parts(6) obtain k where "k < clockCalls s" "hCreatedAt x = clock s k"
        by blast
      then show ?thesis
        by (intro exI [of _ k]) (simp add: s1)
    next
      case 2
      with h(3) show ?thesis
        by (intro exI [of _ "Suc (Suc (clockCalls s))"]) (simp add: s1)
    qed
  qed
  have refs: "\<forall>x \<in> set (bookingHistory s1). bookingId x \<in> bId ` set (bookings s1)"
    using parts(7) h(1) by (auto simp: s1)
  have first: "\<forall>i \<in> bId ` set (bookings s1).
      ledger s1 i \<noteq> [] \<and> hStatus (hd (ledger s1 i)) = submitted"
  proof -
    have "bId ` set (bookings s1) = insert (bId b) (bId ` set (bookings s))"
      by (simp add: s1)
    with parts(8) h(2) show ?thesis
      by (auto simp: led)
  qed
  have wf1: "wellFormed s1"
    using parts(1,2) a ids sorted stamps refs first
    by (simp add: wellFormed_def s1)
  have "lastRowAgrees s1 x" if "x \<in> set (bookings s1)" for x
  proof (cases "x = b")
    case True
    with b(2) h(2) show ?thesis
      by (simp add: lastRowAgrees_def led)
  next
    case False
    with that have x: "x \<in> set (bookings s)"
      by (simp add: s1)
    with fresh have "bId x \<noteq> bId b"
      by (metis imageI)
    with agree x show ?thesis
      by (simp add: lastRowAgrees_def led)
  qed
  with wf1 show "consistent s1"
    by (simp add: consistent_def)
  show "b \<in> set (bookings s1)"
    by (simp add: s1)
  show "status b = submitted"
    by (rule b(2))
qed

text \<open>One more row for a booking, carrying the status the booking has.\<close>

lemma addBookingHistory_consistent:
  assumes c: "consistent s"
    and b: "b \<in> set (bookings s)" "bookingId d = bId b" "hStatus d = status b"
  shows "consistent (snd (addBookingHistory s d))"
proof -
  from c have ce: "consistentExcept s (bId b)"
    by (simp add: consistent_iff)
  from c have wf: "wellFormed s"
    by (simp add: consistent_def)
  have only: "\<forall>x \<in> set (bookings s). bId x = bId b \<longrightarrow> status x = hStatus d"
    using unique_by_id [OF wellFormed_distinct [OF wf] _ b(1)] b(3) by auto
  show ?thesis
    using ce
  proof (rule consistentExcept_append_row(2))
    show "bookingHistory (snd (addBookingHistory s d)) = bookingHistory s @
        [fst (addBookingHistory s d)]"
      by (simp add: addBookingHistory_eq)
    show "bookingId (fst (addBookingHistory s d)) \<in> bId ` set (bookings s)"
      using b(1,2) by (simp add: addBookingHistory_eq)
    show "hCreatedAt (fst (addBookingHistory s d)) = clock s (clockCalls s)"
      by (simp add: addBookingHistory_eq)
    show "\<forall>x \<in> set (bookings s). bId x = bId b \<longrightarrow>
        status x = hStatus (fst (addBookingHistory s d))"
      using only by (simp add: addBookingHistory_eq)
  qed (simp_all add: addBookingHistory_eq b(2))
qed

lemma addBookingHistory_consistentExcept:
  assumes c: "consistent s" and b: "bookingId d \<in> bId ` set (bookings s)"
  shows "consistentExcept (snd (addBookingHistory s d)) (bookingId d)"
    and "bookings (snd (addBookingHistory s d)) = bookings s"
proof -
  from c have ce: "consistentExcept s (bookingId d)"
    by (simp add: consistent_iff)
  show "consistentExcept (snd (addBookingHistory s d)) (bookingId d)"
    using ce
  proof (rule consistentExcept_append_row(1))
    show "bookingHistory (snd (addBookingHistory s d)) = bookingHistory s @
        [fst (addBookingHistory s d)]"
      by (simp add: addBookingHistory_eq)
    show "bookingId (fst (addBookingHistory s d)) \<in> bId ` set (bookings s)"
      using b by (simp add: addBookingHistory_eq)
    show "hCreatedAt (fst (addBookingHistory s d)) = clock s (clockCalls s)"
      by (simp add: addBookingHistory_eq)
  qed (simp_all add: addBookingHistory_eq)
  show "bookings (snd (addBookingHistory s d)) = bookings s"
    by (simp add: addBookingHistory_eq)
qed

lemma broadcastStatusUpdate_consistent:
  "consistent s \<Longrightarrow> consistent (broadcastStatusUpdate s i st)"
  by (erule consistent_tick) (simp_all add: broadcastStatusUpdate_def newDate_def)

subsection \<open>The handlers keep the history consistent\<close>

lemma postBooking_consistent:
  assumes "consistent s"
  shows "consistent (snd (postBooking s actor body))"
proof (cases "parseBooking body actor")
  case None
  with assms show ?thesis
    by (simp add: postBooking_def)
next
  case (Some d)
  show ?thesis
  proof (cases "checkVenueAvailability s (venueId d) (eventDate d) (startTime d) (endTime d)
      None")
    case False
    with Some assms show ?thesis
      by (simp add: postBooking_def)
  next
    case True
    obtain b s1 where run: "createBooking s d = (b, s1)"
      by (cases "createBooking s d")
    note created = createBooking_consistent [OF assms run]
    have "consistent (snd (addBookingHistory s1
        \<lparr>bookingId = bId b, hStatus = submitted,
         remarks = Some ''Booking request submitted'', changedBy = uId actor\<rparr>))"
      using created(1,2) by (rule addBookingHistory_consistent) (simp_all add: created(3))
    then show ?thesis
      using Some True run
      by (simp add: postBooking_def Let_def broadcastStatusUpdate_consistent)
  qed
qed

lemma patchBookingStatus_consistent:
  assumes "consistent s"
  shows "consistent (snd (patchBookingStatus s actor i st r))"
proof (cases "updateBookingStatus s i st (uId actor) r")
  case (Inl e)
  with assms show ?thesis
    by (simp add: patchBookingStatus_def)
next
  case (Inr res)
  obtain b' s1 where res: "res = (b', s1)"
    by (cases res)
  from assms have "consistentExcept s i"
    by (simp add: consistent_iff)
  from updateBookingStatus_consistent(1) [OF this Inr [unfolded res]]
  have "consistent s1" .
  with assms Inr res show ?thesis
    by (simp add: patchBookingStatus_def Let_def broadcastStatusUpdate_consistent)
qed

lemma find_Some_mem: "find P xs = Some x \<Longrightarrow> x \<in> set xs \<and> P x"
  by (induction xs) (auto split: if_splits)

lemma getBooking_Some:
  assumes "getBooking s i = Some (b, u, v)"
  shows "b \<in> set (bookings s)" "bId b = i"
  using assms
  by (auto simp: getBooking_def dest: find_Some_mem split: option.splits)

lemma patchBookingCancel_consistent:
  assumes "consistent s"
  shows "consistent (snd (patchBookingCancel s actor i))"
proof (cases "updateBookingStatus s i cancelled (uId actor) (Some ''Booking cancelled by user'')")
  case (Inl e)
  with assms show ?thesis
    by (simp add: patchBookingCancel_def split: option.splits)
next
  case (Inr res)
  obtain b' s1 where res: "res = (b', s1)"
    by (cases res)
  from assms have "consistentExcept s i"
    by (simp add: consistent_iff)
  note upd = updateBookingStatus_consistent [OF this Inr [unfolded res]]
  from Inr obtain index where index: "findIndex (\<lambda>b. bId b = i) (bookings s) = Some index"
    by (cases "findIndex (\<lambda>b. bId b = i) (bookings s)")
       (simp_all add: updateBookingStatus_missing)
  from findIndex_Some [OF index] have "i \<in> set (map bId (bookings s))"
    by (metis nth_map nth_mem length_map)
  with upd(2) obtain b where b: "b \<in> set (bookings s1)" "bId b = i"
    by (metis (no_types, lifting) image_iff set_map)
  with upd(3) have "status b = cancelled"
    by blast
  with upd(1) b have "consistent (snd (addBookingHistory s1
      \<lparr>bookingId = i, hStatus = cancelled, remarks = Some ''Booking cancelled by user'',
       changedBy = uId actor\<rparr>))"
    by (intro addBookingHistory_consistent [of s1 b]) simp_all
  with assms Inr res show ?thesis
    by (simp add: patchBookingCancel_def Let_def broadcastStatusUpdate_consistent
          split: option.splits)
qed

lemma patchBooking_consistent:
  assumes "consistent s"
  shows "consistent (snd (patchBooking s actor i body))"
proof (cases "findIndex (\<lambda>b. bId b = i) (bookings s)")
  case None
  then have "getBooking s i = None"
    by (auto simp: getBooking_def findIndex_None dest: find_Some_mem split: option.splits)
  with assms show ?thesis
    by (simp add: patchBooking_def)
next
  case (Some index)
  from findIndex_Some [OF Some] have less: "index < length (bookings s)"
    and old: "bId (bookings s ! index) = i"
    by simp_all
  have edited: "consistent (snd (patchBooking s actor i (Some raw)))"
    if ok: "checkVenueAvailability s (venueId d) (eventDate d) (startTime d) (endTime d)
        (Some i)" "parseBooking (Some raw) actor = Some d" for raw d
  proof (cases "getBooking s i")
    case None
    with assms show ?thesis
      by (simp add: patchBooking_def)
  next
    case (Some found)
    obtain e u v where found: "found = (e, u, v)"
      by (cases found)
    from updateBooking_found [OF \<open>findIndex (\<lambda>b. bId b = i) (bookings s) = Some index\<close>, of d]
    obtain new where upd: "updateBooking s i d =
        Inr (new, s\<lparr>bookings := (bookings s)[index := new], clockCalls := Suc (clockCalls s)\<rparr>)"
      and new: "bId new = bId (bookings s ! index)" "status new = status (bookings s ! index)"
      by blast
    define s1 where "s1 = s\<lparr>bookings := (bookings s)[index := new],
      clockCalls := Suc (clockCalls s)\<rparr>"
    define s2 where "s2 = snd (addBookingHistory s1
      \<lparr>bookingId = i, hStatus = submitted,
       remarks = Some ''Booking updated and resubmitted for approval'',
       changedBy = uId actor\<rparr>)"
    have c1: "consistent s1"
      using assms
    proof (rule consistent_replace_booking)
      show "bookings s1 = (bookings s)[index := new]"
        by (simp add: s1_def)
    qed (simp_all add: s1_def less new)
    have ids1: "map bId (bookings s1) = map bId (bookings s)"
      by (simp add: s1_def ids_update [OF less new(1)])
    have idx1: "findIndex (\<lambda>b. bId b = i) (bookings s1) = Some index"
      unfolding s1_def using \<open>findIndex (\<lambda>b. bId b = i) (bookings s) = Some index\<close>
      by (simp add: findIndex_update new(1) old)
    have "i \<in> bId ` set (bookings s1)"
      using findIndex_Some [OF idx1] by (metis imageI nth_mem)
    from addBookingHistory_consistentExcept [OF c1, of "\<lparr>bookingId = i, hStatus = submitted,
       remarks = Some ''Booking updated and resubmitted for approval'',
       changedBy = uId actor\<rparr>"] this
    have ce2: "consistentExcept s2 i" and b2: "bookings s2 = bookings s1"
      by (simp_all add: s2_def)
    from idx1 b2 have idx2: "findIndex (\<lambda>b. bId b = i) (bookings s2) = Some index"
      by simp
    obtain b3 s3 where run3: "updateBookingStatus s2 i submitted (uId actor)
        (Some ''Booking updated'') = Inr (b3, s3)"
      unfolding updateBookingStatus_found [OF idx2] by blast
    from updateBookingStatus_consistent(1) [OF ce2 run3] have "consistent s3" .
    then have "consistent (broadcastStatusUpdate s3 i submitted)"
      by (rule broadcastStatusUpdate_consistent)
    with assms Some found ok upd run3 show ?thesis
      by (simp add: patchBooking_def Let_def s1_def [symmetric] s2_def [symmetric])
  qed
  show ?thesis
  proof (cases "parseBooking body actor")
    case None
    with assms show ?thesis
      by (simp add: patchBooking_def split: option.splits prod.splits)
  next
    case (Some d)
    then obtain raw where raw: "body = Some raw"
      by (cases body) (simp_all add: parseBooking_def)
    show ?thesis
    proof (cases "checkVenueAvailability s (venueId d) (eventDate d) (startTime d)
        (endTime d) (Some i)")
      case True
      from edited [OF True Some [unfolded raw]] raw show ?thesis
        by simp
    next
      case False
      with assms Some show ?thesis
        by (simp add: patchBooking_def split: option.splits prod.splits)
    qed
  qed
qed

section \<open>How many rows the handlers write\<close>

text \<open>
  A creation that succeeds writes two history rows for the new booking, an edit that
  succeeds two rows for the edited one, a cancellation two, a status request one.
\<close>

lemma postBooking_success_rows:
  assumes "postBooking s actor body = ((200, bd), s')"
  shows "\<exists>b h1 h2. bd = BookingJson b \<and> status b = submitted
     \<and> bookings s' = bookings s @ [b]
     \<and> bookingHistory s' = bookingHistory s @ [h1, h2]
     \<and> bookingId h1 = bId b \<and> bookingId h2 = bId b
     \<and> hStatus h1 = submitted \<and> hStatus h2 = submitted"
proof -
  from assms obtain d where d: "parseBooking body actor = Some d"
    and free: "checkVenueAvailability s (venueId d) (eventDate d) (startTime d) (endTime d)
      None"
    by (cases "parseBooking body actor") (auto simp: postBooking_def split: if_splits)
  from createBooking_eq [of s d] obtain b s1 where run: "createBooking s d = (b, s1)"
    and s1: "bookings s1 = bookings s @ [b]"
      "\<exists>h. bookingHistory s1 = bookingHistory s @ [h] \<and> bookingId h = bId b
           \<and> hStatus h = submitted"
    and b: "status b = submitted"
    by auto
  from s1(2) obtain h1 where h1: "bookingHistory s1 = bookingHistory s @ [h1]"
    "bookingId h1 = bId b" "hStatus h1 = submitted"
    by blast
  from assms d free run have bd: "bd = BookingJson b"
    and s': "s' = broadcastStatusUpdate (snd (addBookingHistory s1
        \<lparr>bookingId = bId b, hStatus = submitted,
         remarks = Some ''Booking request submitted'', changedBy = uId actor\<rparr>))
        (bId b) submitted"
    by (simp_all add: postBooking_def Let_def)
  have "bookings s' = bookings s @ [b]"
    by (simp add: s' s1(1) broadcastStatusUpdate_def newDate_def addBookingHistory_eq)
  moreover have "bookingHistory s' = bookingHistory s @
      [h1, fst (addBookingHistory s1
        \<lparr>bookingId = bId b, hStatus = submitted,
         remarks = Some ''Booking request submitted'', changedBy = uId actor\<rparr>)]"
    by (simp add: s' h1(1) broadcastStatusUpdate_def newDate_def addBookingHistory_eq)
  moreover have "bookingId (fst (addBookingHistory s1
        \<lparr>bookingId = bId b, hStatus = submitted,
         remarks = Some ''Booking request submitted'', changedBy = uId actor\<rparr>)) = bId b"
    "hStatus (fst (addBookingHistory s1
        \<lparr>bookingId = bId b, hStatus = submitted,
         remarks = Some ''Booking request submitted'', changedBy = uId actor\<rparr>)) = submitted"
    by (simp_all add: addBookingHistory_eq)
  ultimately show ?thesis
    using bd b h1(2,3) by blast
qed

lemma patchBooking_success_rows:
  assumes "patchBooking s actor i body = ((200, bd), s')"
  shows "\<exists>e u v h1 h2. getBooking s i = Some (e, u, v) \<and> userId e = uId actor
     \<and> status e \<in> {submitted, gd_rejected, secretary_rejected}
     \<and> bookingHistory s' = bookingHistory s @ [h1, h2]
     \<and> bookingId h1 = i \<and> bookingId h2 = i
     \<and> hStatus h1 = submitted \<and> hStatus h2 = submitted
     \<and> remarks h1 = Some ''Booking updated and resubmitted for approval''
     \<and> remarks h2 = Some ''Booking updated''"
proof -
  from assms obtain e u v where found: "getBooking s i = Some (e, u, v)"
    by (cases "getBooking s i") (auto simp: patchBooking_def)
  from assms found have owner: "userId e = uId actor"
    and stage: "status e \<in> {submitted, gd_rejected, secretary_rejected}"
    by (auto simp: patchBooking_def split: if_splits)
  from assms found owner stage obtain d where d: "parseBooking body actor = Some d"
    and free: "checkVenueAvailability s (venueId d) (eventDate d) (startTime d) (endTime d)
      (Some i)"
    by (cases "parseBooking body actor") (auto simp: patchBooking_def split: if_splits)
  from getBooking_Some [OF found] have "i \<in> bId ` set (bookings s)"
    by auto
  then obtain index where index: "findIndex (\<lambda>b. bId b = i) (bookings s) = Some index"
    "index < length (bookings s)" "bId (bookings s ! index) = i"
    by (rule findIndex_exists)
  from updateBooking_found [OF index(1), of d]
  obtain new where upd: "updateBooking s i d =
      Inr (new, s\<lparr>bookings := (bookings s)[index := new], clockCalls := Suc (clockCalls s)\<rparr>)"
    and new: "bId new = bId (bookings s ! index)"
    by blast
  define s1 where "s1 = s\<lparr>bookings := (bookings s)[index := new],
    clockCalls := Suc (clockCalls s)\<rparr>"
  define row1 where "row1 = \<lparr>bookingId = i, hStatus = submitted,
    remarks = Some ''Booking updated and resubmitted for approval'', changedBy = uId actor\<rparr>"
  define s2 where "s2 = snd (addBookingHistory s1 row1)"
  have idx2: "findIndex (\<lambda>b. bId b = i) (bookings s2) = Some index"
    using index(1) by (simp add: s2_def s1_def addBookingHistory_eq findIndex_update new index(3))
  define b3 where "b3 = stageUpdates submitted (clock s2 (clockCalls s2)) (Some ''Booking updated'')
    ((bookings s2 ! index)\<lparr>status := submitted, updatedAt := clock s2 (clockCalls s2)\<rparr>)"
  define h2 where "h2 = \<lparr>bookingId = i, hStatus = submitted,
    remarks = Some (remarksOrDefault (Some ''Booking updated'') submitted),
    changedBy = uId actor, hId = randomIds s2 (idCalls s2),
    hCreatedAt = clock s2 (Suc (clockCalls s2))\<rparr>"
  define s3 where "s3 = s2\<lparr>bookings := (bookings s2)[index := b3],
    bookingHistory := bookingHistory s2 @ [h2],
    idCalls := Suc (idCalls s2), clockCalls := Suc (Suc (clockCalls s2))\<rparr>"
  have run3: "updateBookingStatus s2 i submitted (uId actor) (Some ''Booking updated'')
      = Inr (b3, s3)"
    unfolding updateBookingStatus_found [OF idx2] b3_def h2_def s3_def by simp
  from stage have editable:
    "(status e \<noteq> submitted \<and> status e \<noteq> gd_rejected \<and> status e \<noteq> secretary_rejected)
       = False"
    by auto
  from assms found owner d free upd run3
  have s': "s' = broadcastStatusUpdate s3 i submitted"
    by (simp add: patchBooking_def Let_def editable s1_def [symmetric] row1_def [symmetric]
          s2_def [symmetric])
  have hist: "bookingHistory s' = bookingHistory s @ [fst (addBookingHistory s1 row1), h2]"
    by (simp add: s' s3_def s2_def s1_def broadcastStatusUpdate_def newDate_def
          addBookingHistory_eq)
  have rows: "bookingId (fst (addBookingHistory s1 row1)) = i"
    "hStatus (fst (addBookingHistory s1 row1)) = submitted"
    "remarks (fst (addBookingHistory s1 row1))
       = Some ''Booking updated and resubmitted for approval''"
    "bookingId h2 = i" "hStatus h2 = submitted" "remarks h2 = Some ''Booking updated''"
    by (simp_all add: addBookingHistory_eq row1_def h2_def remarksOrDefault_def)
  from found owner stage hist rows show ?thesis
    by blast
qed

lemma patchBookingCancel_success_rows:
  assumes "patchBookingCancel s actor i = ((200, bd), s')"
  shows "\<exists>e u v h1 h2. getBooking s i = Some (e, u, v) \<and> userId e = uId actor
     \<and> bookingHistory s' = bookingHistory s @ [h1, h2]
     \<and> bookingId h1 = i \<and> bookingId h2 = i
     \<and> hStatus h1 = cancelled \<and> hStatus h2 = cancelled"
proof -
  from assms obtain e u v where found: "getBooking s i = Some (e, u, v)"
    by (cases "getBooking s i") (auto simp: patchBookingCancel_def)
  from assms found have owner: "userId e = uId actor"
    and stage: "status e \<in> {submitted, gd_approved, secretary_approved, gd_rejected,
      secretary_rejected}"
    by (auto simp: patchBookingCancel_def split: if_splits)
  from getBooking_Some [OF found] have "i \<in> bId ` set (bookings s)"
    by auto
  then obtain index where index: "findIndex (\<lambda>b. bId b = i) (bookings s) = Some index"
    by (rule findIndex_exists)
  from assms found have s': "s' = broadcastStatusUpdate
      (snd (addBookingHistory
         (snd (projr (updateBookingStatus s i cancelled (uId actor)
                (Some ''Booking cancelled by user''))))
         \<lparr>bookingId = i, hStatus = cancelled,
          remarks = Some ''Booking cancelled by user'', changedBy = uId actor\<rparr>))
      i cancelled"
    by (auto simp: patchBookingCancel_def updateBookingStatus_found [OF index] Let_def
          split: if_splits)
  define h1 where "h1 = \<lparr>bookingId = i, hStatus = cancelled,
    remarks = Some (remarksOrDefault (Some ''Booking cancelled by user'') cancelled),
    changedBy = uId actor, hId = randomIds s (idCalls s),
    hCreatedAt = clock s (Suc (clockCalls s))\<rparr>"
  define h2 where "h2 = \<lparr>bookingId = i, hStatus = cancelled,
    remarks = Some ''Booking cancelled by user'',
    changedBy = uId actor, hId = randomIds s (Suc (idCalls s)),
    hCreatedAt = clock s (Suc (Suc (clockCalls s)))\<rparr>"
  from s' have "bookingHistory s' = bookingHistory s @ [h1, h2]"
    by (simp add: updateBookingStatus_found [OF index] broadcastStatusUpdate_def newDate_def
          addBookingHistory_eq h1_def h2_def)
  moreover have "bookingId h1 = i" "bookingId h2 = i" "hStatus h1 = cancelled"
    "hStatus h2 = cancelled"
    by (simp_all add: h1_def h2_def)
  ultimately show ?thesis
    using found owner by blast
qed

text \<open>Ownership and stage checks of the edit and cancel handlers.\<close>

lemma patchBooking_forbidden:
  assumes "getBooking s i = Some (e, u, v)" "userId e \<noteq> uId actor"
  shows "patchBooking s actor i body
           = ((403, Message ''Not authorized to edit this booking''), s)"
  using assms by (simp add: patchBooking_def)

lemma patchBooking_invalid_stage:
  assumes "getBooking s i = Some (e, u, v)" "userId e = uId actor"
    "status e \<notin> {submitted, gd_rejected, secretary_rejected}"
  shows "patchBooking s actor i body
           = ((400, Message ''Booking cannot be edited at this stage''), s)"
  using assms by (simp add: patchBooking_def)

lemma patchBookingCancel_forbidden:
  assumes "getBooking s i = Some (e, u, v)" "userId e \<noteq> uId actor"
  shows "patchBookingCancel s actor i
           = ((403, Message ''Not authorized to cancel this booking''), s)"
  using assms by (simp add: patchBookingCancel_def)

subsection \<open>Every reachable store\<close>

lemma reachable_consistent: "reachable s \<Longrightarrow> consistent s"
proof (induction rule: reachable.induct)
  case (start s)
  then show ?case
    by (simp add: consistent_def wellFormed_def)
next
  case (request s req)
  then show ?case
    by (cases req)
       (simp_all add: postBooking_consistent patchBooking_consistent
          patchBookingCancel_consistent patchBookingStatus_consistent)
next
  case (other s s')
  from other.IH other.hyps(4,5,6,7,3,2) show ?case
    by (rule consistent_tick)
qed

text \<open>
  In a well-formed store the rows were inserted in the order of their time stamps,
  so the sort of \<^const>\<open>getBookingHistory\<close> leaves the filtered rows as they are.
\<close>

lemma getBookingHistory_ledger:
  assumes "wellFormed s"
  shows "getBookingHistory s i = ledger s i"
proof -
  from assms have "sorted (map hCreatedAt (bookingHistory s))"
    by (simp add: wellFormed_def)
  then have "sorted (map hCreatedAt (filter (\<lambda>h. bookingId h = i) (bookingHistory s)))"
    by (rule sorted_filter)
  then show ?thesis
    by (simp add: getBookingHistory_def ledger_def sort_key_id_if_sorted)
qed

text \<open>
  C3. In every reachable store, for every booking, the history that
  \<^const>\<open>getBookingHistory\<close> lists for its id (ascending by creation time) is not
  empty, starts with a submitted row, and ends with a row whose status is the
  booking's status. Reachable stores are those the handlers (creation, status
  transition, cancellation, edit, and the ones that write no booking) produce from a
  store without bookings, with ids that do not repeat and a clock that does not go
  back.
\<close>

theorem reachable_history_invariant:
  assumes "reachable s" "b \<in> set (bookings s)"
  shows "getBookingHistory s (bId b) \<noteq> []
     \<and> hStatus (hd (getBookingHistory s (bId b))) = submitted
     \<and> hStatus (last (getBookingHistory s (bId b))) = status b"
proof -
  from assms(1) have "consistent s"
    by (rule reachable_consistent)
  then have wf: "wellFormed s" and agree: "lastRowAgrees s b"
    using assms(2) by (simp_all add: consistent_def)
  from wf assms(2) have "ledger s (bId b) \<noteq> []" "hStatus (hd (ledger s (bId b))) = submitted"
    by (simp_all add: wellFormed_def)
  with agree show ?thesis
    by (simp add: getBookingHistory_ledger [OF wf] lastRowAgrees_def)
qed

text \<open>
  \<^const>\<open>approvedStore\<close> is reachable: alice books, the director approves. The history
  of booking \<^verbatim>\<open>b\<close> starts with submitted and ends with gd_approved, the status of
  the booking.
\<close>

lemma reachable_emptyStore: "reachable emptyStore"
proof (rule reachable.start)
  show "inj (randomIds emptyStore)"
  proof (rule injI)
    fix x y assume "randomIds emptyStore x = randomIds emptyStore y"
    then have "length (replicate (Suc x) CHR ''b'') = length (replicate (Suc y) CHR ''b'')"
      by (simp add: emptyStore_def)
    then show "x = y" by simp
  qed
  show "mono (clock emptyStore)"
    by (rule monoI) (simp add: emptyStore_def)
qed (simp_all add: emptyStore_def)

lemma reachable_approvedStore: "reachable approvedStore"
proof -
  have "reachable (snd (handle emptyStore (PostBooking alice (Some demoRequest))))"
    using reachable_emptyStore by (rule reachable.request)
  then have "reachable bookedStore"
    by (simp add: bookedStore_def)
  then have "reachable (snd (handle bookedStore
      (PatchBookingStatus director ''b'' gd_approved (Some ''ok''))))"
    by (rule reachable.request)
  then show ?thesis
    by (simp add: approvedStore_def)
qed

lemma bookings_approvedStore:
  "map bId (bookings approvedStore) = [''b'']"
  "map status (bookings approvedStore) = [gd_approved]"
proof -
  have idx: "findIndex (\<lambda>b. bId b = ''b'') (bookings bookedStore) = Some 0"
    by (simp add: bookings_bookedStore)
  show "map bId (bookings approvedStore) = [''b'']"
    "map status (bookings approvedStore) = [gd_approved]"
    by (simp_all add: approvedStore_def patchBookingStatus_def director_def
          updateBookingStatus_found [OF idx] broadcastStatusUpdate_def newDate_def
          stageUpdates_def bookings_bookedStore Let_def)
qed

theorem reachable_history_invariant_witness:
  "getBookingHistory approvedStore ''b'' \<noteq> []
   \<and> hStatus (hd (getBookingHistory approvedStore ''b'')) = submitted
   \<and> hStatus (last (getBookingHistory approvedStore ''b'')) = gd_approved"
proof -
  from bookings_approvedStore obtain b where b: "bookings approvedStore = [b]"
    "bId b = ''b''" "status b = gd_approved"
    by auto
  then have "b \<in> set (bookings approvedStore)"
    by simp
  from reachable_history_invariant [OF reachable_approvedStore this] b(2,3)
  show ?thesis by simp
qed

section \<open>What the status handler answers on the wire\<close>

lemma statusName_not_inherited: "statusName st \<notin> set objectPrototypeMembers"
  by (cases st) (simp_all add: objectPrototypeMembers_def)

lemma allowedRolesMember_statusName:
  "allowedRolesMember (statusName st) =
     (case allowedRoles st of None \<Rightarrow> Undefined | Some roles \<Rightarrow> Roles roles)"
  by (cases st) (simp_all add: allowedRolesMember_def objectPrototypeMembers_def)

lemma rawStageUpdates_statusName:
  "rawStageUpdates (statusName st) now r (rawBooking b) = rawBooking (stageUpdates st now r b)"
  by (cases st) (simp_all add: rawStageUpdates_def stageUpdates_def rawBooking_def)

lemma rawRemarksOrDefault_statusName:
  "rawRemarksOrDefault r (statusName st) = remarksOrDefault r st"
  by (simp add: rawRemarksOrDefault_def remarksOrDefault_def)

lemma findIndex_map: "findIndex P (map f xs) = findIndex (\<lambda>x. P (f x)) xs"
  by (induction xs) simp_all

lemma findIndex_rawBooking:
  "findIndex (\<lambda>b. rId b = i) (map rawBooking xs) = findIndex (\<lambda>b. bId b = i) xs"
  by (simp add: findIndex_map rawBooking_def)

text \<open>
  On the declared statuses the handler on the wire does what the typed handler
  does: the same answer, and the same store.
\<close>

lemma patchBookingStatusRaw_declared:
  "patchBookingStatusRaw (rawStorage s) actor i (statusName st) r =
     (rawResponse (fst (patchBookingStatus s actor i st r)),
      rawStorage (snd (patchBookingStatus s actor i st r)))"
proof (cases "findIndex (\<lambda>b. bId b = i) (bookings s)")
  case None
  then have "rawUpdateBookingStatus (rawStorage s) i (statusName st) (uId actor) r
      = Inl BookingNotFoundError"
    by (simp add: rawUpdateBookingStatus_def rawStorage_def findIndex_rawBooking)
  with None show ?thesis
    by (cases "allowedRoles st")
       (simp_all add: patchBookingStatusRaw_def patchBookingStatus_def
          insufficientPermissions_def allowedRolesMember_statusName
          updateBookingStatus_missing)
next
  case (Some index)
  from findIndex_Some [OF Some] have less: "index < length (bookings s)"
    by simp
  have upd: "rawUpdateBookingStatus (rawStorage s) i (statusName st) (uId actor) r
      = Inr (rawBooking (fst (projr (updateBookingStatus s i st (uId actor) r))),
             rawStorage (snd (projr (updateBookingStatus s i st (uId actor) r))))"
    using less
    by (simp add: rawUpdateBookingStatus_def rawAddBookingHistory_def
          updateBookingStatus_found [OF Some] rawStorage_def findIndex_rawBooking Some
          Let_def map_update rawRemarksOrDefault_statusName rawBookingHistory_def
          rawStageUpdates_statusName [symmetric])
       (simp add: rawBooking_def)
  have bcast: "rawStorage (snd (projr (updateBookingStatus s i st (uId actor) r)))
        \<lparr>rClockCalls := Suc (rClockCalls
           (rawStorage (snd (projr (updateBookingStatus s i st (uId actor) r)))))\<rparr>
      = rawStorage (broadcastStatusUpdate
          (snd (projr (updateBookingStatus s i st (uId actor) r))) i st)"
    by (simp add: rawStorage_def broadcastStatusUpdate_def newDate_def)
  have typed: "patchBookingStatus s actor i st r =
      (if (case allowedRoles st of None \<Rightarrow> False | Some roles \<Rightarrow> role actor \<notin> set roles)
       then ((403, Message ''Insufficient permissions''), s)
       else ((200, BookingJson (fst (projr (updateBookingStatus s i st (uId actor) r)))),
             broadcastStatusUpdate
               (snd (projr (updateBookingStatus s i st (uId actor) r))) i st))"
    by (simp add: patchBookingStatus_def updateBookingStatus_found [OF Some] Let_def)
  show ?thesis
    unfolding typed
    by (cases "allowedRoles st")
       (simp_all add: patchBookingStatusRaw_def insufficientPermissions_def
          allowedRolesMember_statusName upd Let_def bcast)
qed


lemma rawStageUpdates_keeps [simp]:
  "rId (rawStageUpdates st t r b) = rId b" "rStatus (rawStageUpdates st t r b) = rStatus b"
  by (simp_all add: rawStageUpdates_def)







end
